theory Spec2Isabelle
  imports Complex_Main "HOL-Library.Word"
begin

section \<open>Text\<close>

text \<open>
  A JavaScript string is a sequence of 16-bit code units. The literals of the source are
  ASCII, so \<open>js\<close> turns an Isabelle string literal into the JavaScript string with the
  same characters, and \<open>ch\<close> a character into its code unit.
\<close>

type_synonym jsstring = "16 word list"

definition js :: "string \<Rightarrow> jsstring" where
  "js s = map of_char s"

definition ch :: "char \<Rightarrow> 16 word" where
  "ch c = of_char c"

section \<open>\<open>JSON.parse\<close>\<close>

text \<open>
  The stream accumulator hands every line that starts with \<open>0:\<close> to the platform's
  \<open>JSON.parse\<close>. The function is written out here after the JSON grammar (ECMA-404), as
  a scanner that reads one code unit at a time and a stack machine that reads one token
  at a time. A number is kept as its lexeme.
\<close>

datatype jsval =
    JNull
  | JBool bool
  | JNumber jsstring
  | JString jsstring
  | JArray "jsval list"
  | JObject "(jsstring \<times> jsval) list"

datatype token =
    LBRACE | RBRACE | LBRACKET | RBRACKET | COLON | COMMA
  | STRING jsstring | NUMBER jsstring | LITERAL jsval

text \<open>JSON white space: space, tab, line feed, carriage return.\<close>

definition isWhiteSpace :: "16 word \<Rightarrow> bool" where
  "isWhiteSpace c = (c = 0x20 \<or> c = 0x09 \<or> c = 0x0A \<or> c = 0x0D)"

definition isDigit :: "16 word \<Rightarrow> bool" where
  "isDigit c = (ch CHR ''0'' \<le> c \<and> c \<le> ch CHR ''9'')"

definition hexDigit :: "16 word \<Rightarrow> nat option" where
  "hexDigit c =
     (if ch CHR ''0'' \<le> c \<and> c \<le> ch CHR ''9'' then Some (unat c - 48)
      else if ch CHR ''a'' \<le> c \<and> c \<le> ch CHR ''f'' then Some (unat c - 87)
      else if ch CHR ''A'' \<le> c \<and> c \<le> ch CHR ''F'' then Some (unat c - 55)
      else None)"

text \<open>
  The number grammar: an optional \<open>-\<close>, then \<open>0\<close> or a digit from 1 to 9 followed by
  digits, then an optional fraction (\<open>.\<close> and one digit or more), then an optional
  exponent (\<open>e\<close> or \<open>E\<close>, an optional sign, one digit or more).
\<close>

definition isExponent :: "jsstring \<Rightarrow> bool" where
  "isExponent s =
     (case s of
        [] \<Rightarrow> True
      | e # r \<Rightarrow>
          (e = ch CHR ''e'' \<or> e = ch CHR ''E'') \<and>
          (let ds = (case r of
                       [] \<Rightarrow> []
                     | sign # r1 \<Rightarrow> if sign = ch CHR ''+'' \<or> sign = ch CHR ''-'' then r1 else r)
           in ds \<noteq> [] \<and> list_all isDigit ds))"

definition isFraction :: "jsstring \<Rightarrow> bool" where
  "isFraction s =
     (case s of
        [] \<Rightarrow> True
      | p # r \<Rightarrow>
          if p = ch CHR ''.''
          then takeWhile isDigit r \<noteq> [] \<and> isExponent (dropWhile isDigit r)
          else isExponent s)"

definition isNumber :: "jsstring \<Rightarrow> bool" where
  "isNumber s =
     (case (case s of [] \<Rightarrow> [] | m # r \<Rightarrow> if m = ch CHR ''-'' then r else s) of
        [] \<Rightarrow> False
      | d # r \<Rightarrow>
          if d = ch CHR ''0'' then isFraction r
          else isDigit d \<and> isFraction (dropWhile isDigit r))"

definition isNumberChar :: "16 word \<Rightarrow> bool" where
  "isNumberChar c =
     (isDigit c \<or> c = ch CHR ''-'' \<or> c = ch CHR ''+'' \<or> c = ch CHR ''.''
      \<or> c = ch CHR ''e'' \<or> c = ch CHR ''E'')"

text \<open>
  The scanner is between tokens, inside a string (with the code units read so far, last
  first), after a backslash, inside a \<open>\u\<close> escape (with the number of hex digits still
  to come and the value so far), inside a number, or inside one of the literals \<open>true\<close>,
  \<open>false\<close>, \<open>null\<close> (with the code units still to come). The tokens are collected
  last first.
\<close>

datatype lexmode =
    Between
  | InString jsstring
  | InEscape jsstring
  | InUnicode jsstring nat nat
  | InNumber jsstring
  | InLiteral jsstring jsval

definition between :: "token list \<Rightarrow> 16 word \<Rightarrow> (lexmode \<times> token list) option" where
  "between toks c =
     (if isWhiteSpace c then Some (Between, toks)
      else if c = ch CHR ''{'' then Some (Between, LBRACE # toks)
      else if c = ch CHR ''}'' then Some (Between, RBRACE # toks)
      else if c = ch CHR ''['' then Some (Between, LBRACKET # toks)
      else if c = ch CHR '']'' then Some (Between, RBRACKET # toks)
      else if c = ch CHR '':'' then Some (Between, COLON # toks)
      else if c = ch CHR '','' then Some (Between, COMMA # toks)
      else if c = ch CHR 0x22 then Some (InString [], toks)
      else if c = ch CHR ''-'' \<or> isDigit c then Some (InNumber [c], toks)
      else if c = ch CHR ''t'' then Some (InLiteral (js ''rue'') (JBool True), toks)
      else if c = ch CHR ''f'' then Some (InLiteral (js ''alse'') (JBool False), toks)
      else if c = ch CHR ''n'' then Some (InLiteral (js ''ull'') JNull, toks)
      else None)"

definition escape :: "16 word \<Rightarrow> 16 word option" where
  "escape c =
     (if c = ch CHR 0x22 \<or> c = ch CHR 0x5C \<or> c = ch CHR ''/'' then Some c
      else if c = ch CHR ''b'' then Some 0x08
      else if c = ch CHR ''f'' then Some 0x0C
      else if c = ch CHR ''n'' then Some 0x0A
      else if c = ch CHR ''r'' then Some 0x0D
      else if c = ch CHR ''t'' then Some 0x09
      else None)"

text \<open>
  A string ends at \<open>"\<close>, may not hold a control character, and \<open>\uXXXX\<close> stands for
  the code unit \<open>XXXX\<close>. A number runs as far as the characters of numbers go and must
  then match the number grammar.
\<close>

definition lex_step ::
  "lexmode \<Rightarrow> token list \<Rightarrow> 16 word \<Rightarrow> (lexmode \<times> token list) option" where
  "lex_step m toks c =
     (case m of
        Between \<Rightarrow> between toks c
      | InString s \<Rightarrow>
          if c = ch CHR 0x22 then Some (Between, STRING (rev s) # toks)
          else if c = ch CHR 0x5C then Some (InEscape s, toks)
          else if c < 0x20 then None
          else Some (InString (c # s), toks)
      | InEscape s \<Rightarrow>
          if c = ch CHR ''u'' then Some (InUnicode s 4 0, toks)
          else map_option (\<lambda>e. (InString (e # s), toks)) (escape c)
      | InUnicode s n v \<Rightarrow>
          (case hexDigit c of
             None \<Rightarrow> None
           | Some d \<Rightarrow>
               if n = 1 then Some (InString (of_nat (16 * v + d) # s), toks)
               else Some (InUnicode s (n - 1) (16 * v + d), toks))
      | InNumber s \<Rightarrow>
          if isNumberChar c then Some (InNumber (c # s), toks)
          else if isNumber (rev s) then between (NUMBER (rev s) # toks) c
          else None
      | InLiteral rest v \<Rightarrow>
          (case rest of
             [] \<Rightarrow> None
           | r # rs \<Rightarrow>
               if c \<noteq> r then None
               else if rs = [] then Some (Between, LITERAL v # toks)
               else Some (InLiteral rs v, toks)))"

definition lex_finish :: "lexmode \<Rightarrow> token list \<Rightarrow> token list option" where
  "lex_finish m toks =
     (case m of
        Between \<Rightarrow> Some (rev toks)
      | InNumber s \<Rightarrow> if isNumber (rev s) then Some (rev (NUMBER (rev s) # toks)) else None
      | _ \<Rightarrow> None)"

fun lexer :: "lexmode \<Rightarrow> token list \<Rightarrow> jsstring \<Rightarrow> token list option" where
  "lexer m toks [] = lex_finish m toks"
| "lexer m toks (c # cs) =
     (case lex_step m toks c of
        None \<Rightarrow> None
      | Some (m1, toks1) \<Rightarrow> lexer m1 toks1 cs)"

text \<open>
  The stack machine keeps, innermost first, the arrays and objects that are open (with
  their elements or members so far, last first) and, above an object, the key whose value
  is being read. \<open>expect\<close> says what may come next.
\<close>

datatype frame =
    ArrayFrame "jsval list"
  | ObjectFrame "(jsstring \<times> jsval) list"
  | KeyFrame jsstring

datatype expect =
    Value | ValueOrEnd | KeyOrEnd | Key | Colon | Separator | Finished jsval

definition complete_value :: "jsval \<Rightarrow> frame list \<Rightarrow> (expect \<times> frame list) option" where
  "complete_value v stack =
     (case stack of
        [] \<Rightarrow> Some (Finished v, [])
      | ArrayFrame vs # st \<Rightarrow> Some (Separator, ArrayFrame (v # vs) # st)
      | KeyFrame k # ObjectFrame kvs # st \<Rightarrow> Some (Separator, ObjectFrame ((k, v) # kvs) # st)
      | _ \<Rightarrow> None)"

definition begin_value :: "token \<Rightarrow> frame list \<Rightarrow> (expect \<times> frame list) option" where
  "begin_value t stack =
     (case t of
        LBRACE \<Rightarrow> Some (KeyOrEnd, ObjectFrame [] # stack)
      | LBRACKET \<Rightarrow> Some (ValueOrEnd, ArrayFrame [] # stack)
      | STRING s \<Rightarrow> complete_value (JString s) stack
      | NUMBER n \<Rightarrow> complete_value (JNumber n) stack
      | LITERAL v \<Rightarrow> complete_value v stack
      | _ \<Rightarrow> None)"

definition close_array :: "frame list \<Rightarrow> (expect \<times> frame list) option" where
  "close_array stack =
     (case stack of ArrayFrame vs # st \<Rightarrow> complete_value (JArray (rev vs)) st | _ \<Rightarrow> None)"

definition close_object :: "frame list \<Rightarrow> (expect \<times> frame list) option" where
  "close_object stack =
     (case stack of ObjectFrame kvs # st \<Rightarrow> complete_value (JObject (rev kvs)) st | _ \<Rightarrow> None)"

definition parse_step ::
  "expect \<Rightarrow> frame list \<Rightarrow> token \<Rightarrow> (expect \<times> frame list) option" where
  "parse_step e stack t =
     (case e of
        Value \<Rightarrow> begin_value t stack
      | ValueOrEnd \<Rightarrow> if t = RBRACKET then close_array stack else begin_value t stack
      | KeyOrEnd \<Rightarrow>
          (case t of
             STRING k \<Rightarrow> Some (Colon, KeyFrame k # stack)
           | RBRACE \<Rightarrow> close_object stack
           | _ \<Rightarrow> None)
      | Key \<Rightarrow> (case t of STRING k \<Rightarrow> Some (Colon, KeyFrame k # stack) | _ \<Rightarrow> None)
      | Colon \<Rightarrow> if t = COLON then Some (Value, stack) else None
      | Separator \<Rightarrow>
          (case stack of
             ArrayFrame vs # st \<Rightarrow>
               if t = COMMA then Some (Value, stack)
               else if t = RBRACKET then close_array stack
               else None
           | ObjectFrame kvs # st \<Rightarrow>
               if t = COMMA then Some (Key, stack)
               else if t = RBRACE then close_object stack
               else None
           | _ \<Rightarrow> None)
      | Finished v \<Rightarrow> None)"

fun parser :: "expect \<Rightarrow> frame list \<Rightarrow> token list \<Rightarrow> jsval option" where
  "parser e stack [] = (case e of Finished v \<Rightarrow> Some v | _ \<Rightarrow> None)"
| "parser e stack (t # ts) =
     (case parse_step e stack t of
        None \<Rightarrow> None
      | Some (e1, stack1) \<Rightarrow> parser e1 stack1 ts)"

text \<open>What the source's \<open>try\<close> blocks can catch.\<close>

datatype error = SyntaxError | TypeError | NetworkError | Error string

definition JSON_parse :: "jsstring \<Rightarrow> error + jsval" where
  "JSON_parse text =
     (case lexer Between [] text of
        None \<Rightarrow> Inl SyntaxError
      | Some toks \<Rightarrow>
          (case parser Value [] toks of None \<Rightarrow> Inl SyntaxError | Some v \<Rightarrow> Inr v))"

section \<open>The states of the scanner\<close>

text \<open>
  For the properties of \<open>JSON.parse\<close> on a text cut in two: the state of the scanner
  after a text.
\<close>

fun lex_run :: "lexmode \<Rightarrow> token list \<Rightarrow> jsstring \<Rightarrow> (lexmode \<times> token list) option" where
  "lex_run m toks [] = Some (m, toks)"
| "lex_run m toks (c # cs) =
     (case lex_step m toks c of
        None \<Rightarrow> None
      | Some (m1, toks1) \<Rightarrow> lex_run m1 toks1 cs)"

text \<open>
  A state outside every string (\<open>plain\<close>, with only letters left to come in a
  literal), a state inside a string (\<open>quoted\<close>), and the states the scanner can be in.
\<close>

definition isLower :: "16 word \<Rightarrow> bool" where
  "isLower c = (ch CHR ''a'' \<le> c \<and> c \<le> ch CHR ''z'')"

definition plain :: "lexmode \<Rightarrow> bool" where
  "plain m =
     (case m of
        Between \<Rightarrow> True
      | InNumber s \<Rightarrow> True
      | InLiteral rest v \<Rightarrow> list_all isLower rest
      | _ \<Rightarrow> False)"

definition quoted :: "lexmode \<Rightarrow> bool" where
  "quoted m = (case m of InString s \<Rightarrow> True | _ \<Rightarrow> False)"

definition wf_mode :: "lexmode \<Rightarrow> bool" where
  "wf_mode m = (case m of InLiteral rest v \<Rightarrow> list_all isLower rest | _ \<Rightarrow> True)"

section \<open>\<open>data.content\<close>, its truth and its text\<close>

text \<open>
  \<open>data.content\<close> throws a \<open>TypeError\<close> when \<open>data\<close> is \<open>null\<close>. On an object it
  is the member named \<open>content\<close> (the last one when the text repeats the key), on every
  other value \<open>undefined\<close>, here \<open>None\<close>.
\<close>

definition get_content :: "jsval \<Rightarrow> error + jsval option" where
  "get_content data =
     (case data of
        JNull \<Rightarrow> Inl TypeError
      | JObject members \<Rightarrow> Inr (map_of (rev members) (js ''content''))
      | _ \<Rightarrow> Inr None)"

text \<open>
  How JavaScript prints a number is floating-point formatting, and the functions below
  take it as a parameter: \<open>numberText\<close> maps the lexeme of a JSON number to the string of
  the number it denotes. That string is \<open>0\<close> exactly for the two zeros, the only numbers
  of a JSON text that count as false.
\<close>

type_synonym numberText = "jsstring \<Rightarrow> jsstring"

text \<open>
  A number printer for inputs in which no number occurs, or only numbers written the way
  JavaScript prints them.
\<close>

definition asWritten :: numberText where
  "asWritten lexeme = lexeme"

text \<open>\<open>if (data.content)\<close>\<close>

definition ToBoolean :: "numberText \<Rightarrow> jsval option \<Rightarrow> bool" where
  "ToBoolean numberText v =
     (case v of
        None \<Rightarrow> False
      | Some JNull \<Rightarrow> False
      | Some (JBool b) \<Rightarrow> b
      | Some (JNumber n) \<Rightarrow> numberText n \<noteq> js ''0''
      | Some (JString s) \<Rightarrow> s \<noteq> []
      | Some (JArray vs) \<Rightarrow> True
      | Some (JObject members) \<Rightarrow> True)"

text \<open>
  The string that \<open>aiResponse += v\<close> appends. An array is joined with commas, \<open>null\<close>
  elements giving the empty string. An object born of \<open>JSON.parse\<close> prints as
  \<open>[object Object]\<close>, unless it has a member \<open>toString\<close> of its own: that member is not
  a function, \<open>valueOf\<close> returns the object itself, and the conversion throws.
\<close>

fun ToString :: "numberText \<Rightarrow> jsval \<Rightarrow> error + jsstring"
  and join :: "numberText \<Rightarrow> jsval list \<Rightarrow> error + jsstring" where
  "ToString numberText JNull = Inr (js ''null'')"
| "ToString numberText (JBool b) = Inr (if b then js ''true'' else js ''false'')"
| "ToString numberText (JNumber n) = Inr (numberText n)"
| "ToString numberText (JString s) = Inr s"
| "ToString numberText (JArray vs) = join numberText vs"
| "ToString numberText (JObject members) =
     (if map_of members (js ''toString'') = None then Inr (js ''[object Object]'')
      else Inl TypeError)"
| "join numberText [] = Inr []"
| "join numberText (v # vs) =
     (case (if v = JNull then Inr [] else ToString numberText v) of
        Inl e \<Rightarrow> Inl e
      | Inr t \<Rightarrow>
          if vs = [] then Inr t
          else (case join numberText vs of
                  Inl e \<Rightarrow> Inl e
                | Inr r \<Rightarrow> Inr (t @ js '','' @ r)))"

section \<open>The stream accumulator\<close>

text \<open>
  The read loop is the same text in \<open>AIVoiceInterface.handleVoiceInput\<close> and in
  \<open>GawinVoiceInterface.handleVoiceInput\<close>.

  \<^verbatim>\<open>chunk.split("\n")\<close>: the pieces between line feeds, always at least one.
\<close>

fun split_newline :: "jsstring \<Rightarrow> jsstring list" where
  "split_newline [] = [[]]"
| "split_newline (c # cs) =
     (if c = 0x0A then [] # split_newline cs
      else (case split_newline cs of
              [] \<Rightarrow> [[c]]
            | line # lines \<Rightarrow> (c # line) # lines))"

definition startsWith :: "jsstring \<Rightarrow> jsstring \<Rightarrow> bool" where
  "startsWith line p = (take (length p) line = p)"

text \<open>
  The body of the \<open>try\<close> inside the loop over the lines, which returns the new value of
  \<open>aiResponse\<close>:
  \<^verbatim>\<open>const data = JSON.parse(line.slice(2)); if (data.content) { aiResponse += data.content }\<close>
\<close>

definition try_line :: "numberText \<Rightarrow> jsstring \<Rightarrow> jsstring \<Rightarrow> error + jsstring" where
  "try_line numberText aiResponse line =
     (case JSON_parse (drop 2 line) of
        Inl e \<Rightarrow> Inl e
      | Inr data \<Rightarrow>
          (case get_content data of
             Inl e \<Rightarrow> Inl e
           | Inr content \<Rightarrow>
               if ToBoolean numberText content
               then (case content of
                       None \<Rightarrow> Inr aiResponse
                     | Some v \<Rightarrow>
                         (case ToString numberText v of
                            Inl e \<Rightarrow> Inl e
                          | Inr t \<Rightarrow> Inr (aiResponse @ t)))
               else Inr aiResponse))"

text \<open>
  \<^verbatim>\<open>if (line.startsWith("0:")) { try { ... } catch (e) { /* Skip invalid JSON */ } }\<close>
\<close>

definition processLine :: "numberText \<Rightarrow> jsstring \<Rightarrow> jsstring \<Rightarrow> jsstring" where
  "processLine numberText aiResponse line =
     (if startsWith line (js ''0:'')
      then (case try_line numberText aiResponse line of
              Inl e \<Rightarrow> aiResponse
            | Inr r \<Rightarrow> r)
      else aiResponse)"

text \<open>\<^verbatim>\<open>for (const line of lines)\<close>\<close>

fun processLines :: "numberText \<Rightarrow> jsstring \<Rightarrow> jsstring list \<Rightarrow> jsstring" where
  "processLines numberText aiResponse [] = aiResponse"
| "processLines numberText aiResponse (line # lines) =
     processLines numberText (processLine numberText aiResponse line) lines"

text \<open>
  A response body, as the reader delivers it: the chunks, each given as the text the
  decoder makes of it, and then either \<open>done\<close> or a read that rejects. The loop runs
  until one of the two happens; a body that never ends keeps it waiting, and the bodies
  of the model are the ones that end.
\<close>

datatype stream_end = Done | ReadRejects

datatype body = Body "jsstring list" stream_end

text \<open>
  \<^verbatim>\<open>while (true) { const { done, value } = await reader.read(); if (done) break; ... }\<close>
\<close>

fun readLoop :: "numberText \<Rightarrow> jsstring \<Rightarrow> jsstring list \<Rightarrow> stream_end \<Rightarrow> error + jsstring" where
  "readLoop numberText aiResponse [] e =
     (case e of Done \<Rightarrow> Inr aiResponse | ReadRejects \<Rightarrow> Inl NetworkError)"
| "readLoop numberText aiResponse (chunk # chunks) e =
     readLoop numberText (processLines numberText aiResponse (split_newline chunk)) chunks e"

text \<open>
  The outcome of \<open>fetch\<close>: it rejects, or it resolves to a response with its \<open>ok\<close> flag
  and its body (\<open>None\<close>: \<open>response.body\<close> is \<open>null\<close>, and there is no reader).
\<close>

datatype fetched = Rejected | Response bool "body option"

text \<open>
  The \<open>try\<close> block of \<open>handleVoiceInput\<close> up to \<open>finalResponse\<close>, the same in both
  components:
  \<^verbatim>\<open>const finalResponse = aiResponse || "I heard you, but I'm not sure how to respond to that."\<close>
\<close>

definition finalResponse :: "numberText \<Rightarrow> fetched \<Rightarrow> error + jsstring" where
  "finalResponse numberText f =
     (case f of
        Rejected \<Rightarrow> Inl NetworkError
      | Response ok b \<Rightarrow>
          if ok
          then (case (case b of
                        None \<Rightarrow> Inr []
                      | Some (Body chunks e) \<Rightarrow> readLoop numberText [] chunks e) of
                  Inl e \<Rightarrow> Inl e
                | Inr aiResponse \<Rightarrow>
                    Inr (if aiResponse = []
                         then js ''I heard you, but I'm not sure how to respond to that.''
                         else aiResponse))
          else Inl (Error ''Failed to get AI response''))"

section \<open>The stream as the specification describes it\<close>

text \<open>
  The specification speaks of the lines of a response, of content frames and of their
  \<open>content\<close> fields. These definitions say what that means for the chunks the reader
  delivers; the properties below compare the read loop with them.

  The lines the loop sees: those of each chunk, split on its own.
\<close>

definition lines_of :: "jsstring list \<Rightarrow> jsstring list" where
  "lines_of chunks = concat (map split_newline chunks)"

text \<open>
  The lines of a chunk, joined again by line feeds, are the chunk.
\<close>

fun join_newline :: "jsstring list \<Rightarrow> jsstring" where
  "join_newline [] = []"
| "join_newline [line] = line"
| "join_newline (line # lines) = line @ [0x0A] @ join_newline lines"

text \<open>
  A content frame is a line with the prefix \<open>0:\<close> whose remainder is a JSON-encoded
  object with a \<open>content\<close> field. \<open>contentField\<close> is the text of that field, and
  nothing for every other line. (A field that is not a string counts with the text
  JavaScript gives it, a field that counts as false with nothing.)
\<close>

definition contentField :: "numberText \<Rightarrow> jsstring \<Rightarrow> jsstring" where
  "contentField numberText line =
     (if startsWith line (js ''0:'')
      then (case JSON_parse (drop 2 line) of
              Inr (JObject members) \<Rightarrow>
                (case map_of (rev members) (js ''content'') of
                   None \<Rightarrow> []
                 | Some v \<Rightarrow>
                     if ToBoolean numberText (Some v)
                     then (case ToString numberText v of Inl e \<Rightarrow> [] | Inr t \<Rightarrow> t)
                     else [])
            | _ \<Rightarrow> [])
      else [])"

text \<open>
  A malformed content frame: a line with the \<open>0:\<close> prefix whose remainder fails to parse
  as JSON.
\<close>

definition malformedFrame :: "jsstring \<Rightarrow> bool" where
  "malformedFrame line =
     (startsWith line (js ''0:'') \<and> JSON_parse (drop 2 line) = Inl SyntaxError)"

definition wellFormedFrame :: "jsstring \<Rightarrow> bool" where
  "wellFormedFrame line =
     (startsWith line (js ''0:'') \<and> JSON_parse (drop 2 line) \<noteq> Inl SyntaxError)"

text \<open>
  The completion call fails: \<open>fetch\<close> rejects, or the response has a non-success status.
\<close>

definition fails :: "fetched \<Rightarrow> bool" where
  "fails f = (case f of Rejected \<Rightarrow> True | Response ok b \<Rightarrow> \<not> ok)"

section \<open>The interaction state and the handles of a component\<close>

text \<open>
  \<^verbatim>\<open>type VoiceState = "idle" | "listening" | "processing" | "speaking"\<close>
\<close>

datatype VoiceState = idle | listening | processing | speaking

text \<open>
  The browser objects the components hold (recognizer, synthesizer, media stream, audio
  context, animation frames) are external. A component keeps, for each, whether its ref
  holds a handle, and the model records every method call made on a handle, in order.
\<close>

datatype call =
    RecognitionStart
  | RecognitionStop
  | Speak jsstring
  | SynthCancel
  | TrackStop nat
  | AudioContextClose
  | CancelAnimationFrame nat

text \<open>
  What \<open>AIVoiceInterface\<close> and \<open>GawinVoiceInterface\<close> have in common:
  \<open>useState<VoiceState>("idle")\<close>, \<open>useState(false)\<close> for \<open>isListening\<close>,
  \<open>recognitionRef\<close> and \<open>synthRef\<close> (\<open>True\<close>: \<open>.current\<close> holds a handle).
\<close>

record voice =
  state :: VoiceState
  isListening :: bool
  recognitionRef :: bool
  synthRef :: bool
  calls :: "call list"

record ai = voice +
  transcript :: jsstring
  response :: jsstring
  isMuted :: bool

text \<open>
  \<open>streamRef\<close> holds the tracks of the media stream once \<open>getUserMedia\<close> has resolved,
  \<open>animationRef\<close> the id of the pending animation frame.
\<close>

record gawin = voice +
  audioLevel :: real
  audioContextRef :: bool
  streamRef :: "nat list option"
  animationRef :: "nat option"

definition invoke :: "call \<Rightarrow> 'a voice_scheme \<Rightarrow> 'a voice_scheme" where
  "invoke k c = c\<lparr>calls := calls c @ [k]\<rparr>"

text \<open>The calls that running \<open>f\<close> on \<open>c\<close> adds to the record of calls.\<close>

definition issued :: "('a voice_scheme \<Rightarrow> 'b voice_scheme) \<Rightarrow> 'a voice_scheme \<Rightarrow> call list" where
  "issued f c = drop (length (calls c)) (calls (f c))"

section \<open>Mounting\<close>

text \<open>
  The first render has the initial values of every \<open>useState\<close>; the effects then fill
  the refs from what the browser offers (\<open>window.SpeechRecognition ||
  window.webkitSpeechRecognition\<close>, \<open>window.speechSynthesis\<close>).
\<close>

definition initial_state :: VoiceState where
  "initial_state = idle"

definition initial_isMuted :: bool where
  "initial_isMuted = False"

definition AI_mount :: "bool \<Rightarrow> bool \<Rightarrow> ai" where
  "AI_mount hasRecognition hasSynthesis =
     \<lparr>state = initial_state, isListening = False,
      recognitionRef = hasRecognition, synthRef = hasSynthesis, calls = [],
      transcript = [], response = [], isMuted = initial_isMuted\<rparr>"

definition Gawin_mount :: "bool \<Rightarrow> bool \<Rightarrow> gawin" where
  "Gawin_mount hasRecognition hasSynthesis =
     \<lparr>state = initial_state, isListening = False,
      recognitionRef = hasRecognition, synthRef = hasSynthesis, calls = [],
      audioLevel = 0, audioContextRef = False, streamRef = None, animationRef = None\<rparr>"

text \<open>
  \<open>initializeAudio\<close> up to its \<open>await\<close>: the audio context is constructed and kept
  in its ref (a constructor that throws leaves the refs empty and ends the function in
  its \<open>catch\<close>), and \<open>getUserMedia\<close> is called.
\<close>

definition initializeAudio :: "bool \<Rightarrow> gawin \<Rightarrow> gawin" where
  "initializeAudio hasAudioContext c =
     (if hasAudioContext then c\<lparr>audioContextRef := True\<rparr> else c)"

text \<open>
  The rest of \<open>initializeAudio\<close>, which runs when \<open>getUserMedia\<close> resolves: the stream
  is kept in its ref, the analyser is built and the analysis starts. When
  \<open>getUserMedia\<close> rejects, the \<open>catch\<close> changes nothing.
\<close>

definition getUserMedia_resolved :: "nat list \<Rightarrow> gawin \<Rightarrow> gawin" where
  "getUserMedia_resolved tracks c =
     (if audioContextRef c then c\<lparr>streamRef := Some tracks\<rparr> else c)"

section \<open>The recognizer's handlers\<close>

text \<open>
  Both components install the same four handlers, in an effect with the dependency list
  \<open>[]\<close>. Such an effect runs once, after the first render, so the functions it installs
  are the ones created by that render: a \<open>useState\<close> constant they read (\<open>state\<close>,
  \<open>isMuted\<close>) is the constant of the first render and keeps its initial value, whereas
  the setters and the refs are the same objects in every render. The handlers below take
  such a constant as their first argument; the installed handler is the instance at the
  initial value.

  \<^verbatim>\<open>onstart = () => { setState("listening"); setIsListening(true) }\<close>
\<close>

definition onstart :: "'a voice_scheme \<Rightarrow> 'a voice_scheme" where
  "onstart c = c\<lparr>state := listening, isListening := True\<rparr>"

text \<open>
  \<^verbatim>\<open>onend = () => { setIsListening(false); if (state === "listening") { setState("idle") } }\<close>
  with \<open>seen\<close> the value of the constant \<open>state\<close> the handler reads.
\<close>

definition onend_reading :: "VoiceState \<Rightarrow> 'a voice_scheme \<Rightarrow> 'a voice_scheme" where
  "onend_reading seen c =
     (let c1 = c\<lparr>isListening := False\<rparr>
      in if seen = listening then c1\<lparr>state := idle\<rparr> else c1)"

definition onend :: "'a voice_scheme \<Rightarrow> 'a voice_scheme" where
  "onend = onend_reading initial_state"

text \<open>
  \<^verbatim>\<open>onerror = () => { setIsListening(false); setState("idle") }\<close>
\<close>

definition onerror :: "'a voice_scheme \<Rightarrow> 'a voice_scheme" where
  "onerror c = c\<lparr>isListening := False, state := idle\<rparr>"

text \<open>\<^verbatim>\<open>utterance.onend = () => setState("idle")\<close>\<close>

definition utterance_onend :: "'a voice_scheme \<Rightarrow> 'a voice_scheme" where
  "utterance_onend c = c\<lparr>state := idle\<rparr>"

section \<open>\<open>handleVoiceInput\<close>\<close>

text \<open>
  \<open>handleVoiceInput\<close> is called by the recognizer's \<open>onresult\<close> handler, which the same
  effect installs: the function that runs is the one of the first render. In
  \<open>GawinVoiceInterface\<close> it reads no \<open>useState\<close> constant. The transcript \<open>text\<close> goes
  into the request; the outcome of the request is an input of the model.
\<close>

definition Gawin_handleVoiceInput :: "numberText \<Rightarrow> jsstring \<Rightarrow> fetched \<Rightarrow> gawin \<Rightarrow> gawin" where
  "Gawin_handleVoiceInput numberText text f c =
     (let c1 = c\<lparr>state := processing\<rparr>
      in case finalResponse numberText f of
           Inr final \<Rightarrow>
             if synthRef c1 then invoke (Speak final) (c1\<lparr>state := speaking\<rparr>)
             else c1\<lparr>state := idle\<rparr>
         | Inl e \<Rightarrow>
             (let fallbackResponse = js ''I'm having trouble processing that right now.''
              in if synthRef c1 then invoke (Speak fallbackResponse) (c1\<lparr>state := speaking\<rparr>)
                 else c1\<lparr>state := idle\<rparr>))"

text \<open>
  The text \<open>GawinVoiceInterface\<close> produces for a turn (\<open>finalResponse\<close> or
  \<open>fallbackResponse\<close>); the component keeps it in no state of its own.
\<close>

definition Gawin_responseText :: "numberText \<Rightarrow> fetched \<Rightarrow> jsstring" where
  "Gawin_responseText numberText f =
     (case finalResponse numberText f of
        Inr final \<Rightarrow> final
      | Inl e \<Rightarrow> js ''I'm having trouble processing that right now.'')"

text \<open>
  In \<open>AIVoiceInterface\<close> the function reads \<open>isMuted\<close>; \<open>muted\<close> is the value of the
  constant it reads. The optional callback \<open>onVoiceInput\<close> is not modelled.
\<close>

definition AI_handleVoiceInput_reading ::
  "bool \<Rightarrow> numberText \<Rightarrow> jsstring \<Rightarrow> fetched \<Rightarrow> ai \<Rightarrow> ai" where
  "AI_handleVoiceInput_reading muted numberText text f c =
     (let c1 = c\<lparr>state := processing\<rparr>
      in case finalResponse numberText f of
           Inr final \<Rightarrow>
             (let c2 = c1\<lparr>response := final\<rparr>
              in if \<not> muted \<and> synthRef c2 then invoke (Speak final) (c2\<lparr>state := speaking\<rparr>)
                 else c2\<lparr>state := idle\<rparr>)
         | Inl e \<Rightarrow>
             (let fallbackResponse =
                    js ''I'm having trouble processing that right now. Please try again.'';
                  c2 = c1\<lparr>response := fallbackResponse\<rparr>
              in if \<not> muted \<and> synthRef c2
                 then invoke (Speak fallbackResponse) (c2\<lparr>state := speaking\<rparr>)
                 else c2\<lparr>state := idle\<rparr>))"

definition AI_handleVoiceInput :: "numberText \<Rightarrow> jsstring \<Rightarrow> fetched \<Rightarrow> ai \<Rightarrow> ai" where
  "AI_handleVoiceInput = AI_handleVoiceInput_reading initial_isMuted"

text \<open>
  \<open>onresult\<close>. \<open>AIVoiceInterface\<close> asks for interim results: it shows every transcript
  and handles the final one. \<open>GawinVoiceInterface\<close> gets final results only.
\<close>

definition AI_onresult :: "numberText \<Rightarrow> jsstring \<Rightarrow> bool \<Rightarrow> fetched \<Rightarrow> ai \<Rightarrow> ai" where
  "AI_onresult numberText text isFinal f c =
     (let c1 = c\<lparr>transcript := text\<rparr>
      in if isFinal then AI_handleVoiceInput numberText text f c1 else c1)"

definition Gawin_onresult :: "numberText \<Rightarrow> jsstring \<Rightarrow> fetched \<Rightarrow> gawin \<Rightarrow> gawin" where
  "Gawin_onresult numberText text f c = Gawin_handleVoiceInput numberText text f c"

section \<open>The start-listening inputs\<close>

text \<open>
  These functions are created by every render and handed to the button or the cube of that
  render, so they read the current values.
\<close>

definition AI_startListening :: "ai \<Rightarrow> ai" where
  "AI_startListening c =
     (if recognitionRef c \<and> \<not> isListening c
      then invoke RecognitionStart (c\<lparr>transcript := []\<rparr>)
      else c)"

definition AI_stopListening :: "ai \<Rightarrow> ai" where
  "AI_stopListening c =
     (if recognitionRef c \<and> isListening c then invoke RecognitionStop c else c)"

text \<open>
  The microphone button:
  \<^verbatim>\<open>onClick={isListening ? stopListening : startListening}\<close>,
  \<^verbatim>\<open>disabled={state === "processing" || state === "speaking"}\<close>.
  A disabled button delivers no click.
\<close>

definition AI_micButton_click :: "ai \<Rightarrow> ai" where
  "AI_micButton_click c =
     (if state c = processing \<or> state c = speaking then c
      else if isListening c then AI_stopListening c
      else AI_startListening c)"

definition Gawin_handleCubeClick :: "gawin \<Rightarrow> gawin" where
  "Gawin_handleCubeClick c =
     (if recognitionRef c \<and> \<not> isListening c \<and> state c = idle
      then invoke RecognitionStart c
      else c)"

section \<open>Teardown\<close>

text \<open>
  The cleanup of the effect that installs the recognizer's handlers, the same in both
  components: \<^verbatim>\<open>if (recognitionRef.current) recognitionRef.current.stop()\<close>, then
  \<^verbatim>\<open>if (synthRef.current) synthRef.current.cancel()\<close>.
\<close>

definition recognition_cleanup :: "'a voice_scheme \<Rightarrow> 'a voice_scheme" where
  "recognition_cleanup c =
     (let c1 = (if recognitionRef c then invoke RecognitionStop c else c)
      in if synthRef c1 then invoke SynthCancel c1 else c1)"

fun stopTracks :: "nat list \<Rightarrow> gawin \<Rightarrow> gawin" where
  "stopTracks [] c = c"
| "stopTracks (track # tracks) c = stopTracks tracks (invoke (TrackStop track) c)"

text \<open>
  The cleanup of the audio effect of \<open>GawinVoiceInterface\<close>: cancel the pending animation
  frame, stop every track of the stream, close the audio context, each under the test of
  its ref. An animation frame id is a positive number, and \<open>if (animationRef.current)\<close>
  takes \<open>0\<close> for no frame.
\<close>

definition audio_cleanup :: "gawin \<Rightarrow> gawin" where
  "audio_cleanup c =
     (let c1 = (case animationRef c of
                  None \<Rightarrow> c
                | Some frame \<Rightarrow> if frame = 0 then c else invoke (CancelAnimationFrame frame) c);
          c2 = (case streamRef c1 of None \<Rightarrow> c1 | Some tracks \<Rightarrow> stopTracks tracks c1)
      in if audioContextRef c2 then invoke AudioContextClose c2 else c2)"

text \<open>On unmount the cleanups run in the order of their effects.\<close>

definition AI_unmount :: "ai \<Rightarrow> ai" where
  "AI_unmount c = recognition_cleanup c"

definition Gawin_unmount :: "gawin \<Rightarrow> gawin" where
  "Gawin_unmount c = recognition_cleanup (audio_cleanup c)"

section \<open>The audio level\<close>

text \<open>
  \<open>analyserRef.current.fftSize = 256\<close>; an analyser has \<open>fftSize / 2\<close> frequency bins.
  \<open>dataArray\<close> is a \<open>Uint8Array\<close> of \<open>bufferLength\<close> elements, filled by
  \<open>getByteFrequencyData\<close>.
\<close>

definition fftSize :: nat where
  "fftSize = 256"

definition frequencyBinCount :: nat where
  "frequencyBinCount = fftSize div 2"

definition bufferLength :: nat where
  "bufferLength = frequencyBinCount"

text \<open>
  \<^verbatim>\<open>dataArray.reduce((sum, value) => sum + value, 0) / bufferLength\<close>.
  The sum of at most 128 bytes is an integer a JavaScript number holds exactly, and so is
  its quotient by 128; the numbers of the model are the reals.
\<close>

definition average :: "8 word list \<Rightarrow> real" where
  "average dataArray = foldl (\<lambda>sum v. sum + real (unat v)) 0 dataArray / real bufferLength"

text \<open>
  One run of \<open>analyze\<close>, which \<open>startAudioAnalysis\<close> starts once the analyser exists:
  \<^verbatim>\<open>setAudioLevel(average / 255)\<close>, then the next frame is requested. The band
  averages that follow in the source only decide whether a line is written to the console.
\<close>

definition analyze :: "8 word list \<Rightarrow> nat \<Rightarrow> gawin \<Rightarrow> gawin" where
  "analyze dataArray frame c =
     c\<lparr>audioLevel := average dataArray / 255, animationRef := Some frame\<rparr>"

section \<open>The chat route\<close>

text \<open>
  \<^verbatim>\<open>export const maxDuration = 30\<close>
\<close>

definition maxDuration :: nat where
  "maxDuration = 30"

text \<open>
  The object \<open>POST\<close> hands to \<open>streamText\<close>, with its keys in the order of the
  source; \<open>abortSignal\<close> is the signal of the request.
\<close>

datatype ('p, 's) setting =
    LanguageModel string
  | ModelMessages 'p
  | AbortSignal 's
  | Number real

type_synonym ('p, 's) options = "(string \<times> ('p, 's) setting) list"

datatype ('p, 's) route_response =
    UIMessageStream "('p, 's) options"
  | Json500 string

text \<open>
  \<open>req.json()\<close> and \<open>convertToModelMessages\<close> are library code: the body arrives as
  \<open>Some messages\<close> when \<open>req.json()\<close> resolves (\<open>None\<close> when it rejects), and the
  conversion is a parameter that returns \<open>None\<close> where it throws. Either failure is caught
  and answered with status 500.
\<close>

definition POST ::
  "('m \<Rightarrow> 'p option) \<Rightarrow> 'm option \<Rightarrow> 's \<Rightarrow> ('p, 's) route_response" where
  "POST convertToModelMessages body signal =
     (case body of
        None \<Rightarrow> Json500 ''Failed to process chat request''
      | Some msgs \<Rightarrow>
          (case convertToModelMessages msgs of
             None \<Rightarrow> Json500 ''Failed to process chat request''
           | Some prompt \<Rightarrow>
               UIMessageStream
                 [(''model'', LanguageModel ''gpt-4o-mini''),
                  (''messages'', ModelMessages prompt),
                  (''abortSignal'', AbortSignal signal),
                  (''maxTokens'', Number 150),
                  (''temperature'', Number (7 / 10))]))"

text \<open>
  What reaches the model provider. The route is written against version 5 of the \<open>ai\<close>
  package: \<open>convertToModelMessages\<close>, \<open>UIMessage\<close> and \<open>toUIMessageStreamResponse\<close>
  belong to that version. Its \<open>streamText\<close> reads the settings it knows from the object
  by name, the output cap under the name \<open>maxOutputTokens\<close>, and hands no other key to
  the provider.
\<close>

record provider_call =
  providerModel :: "string option"
  maxOutputTokens :: "real option"
  providerTemperature :: "real option"

definition streamText :: "('p, 's) options \<Rightarrow> provider_call" where
  "streamText opts =
     \<lparr>providerModel =
        (case map_of opts ''model'' of Some (LanguageModel m) \<Rightarrow> Some m | _ \<Rightarrow> None),
      maxOutputTokens =
        (case map_of opts ''maxOutputTokens'' of Some (Number n) \<Rightarrow> Some n | _ \<Rightarrow> None),
      providerTemperature =
        (case map_of opts ''temperature'' of Some (Number n) \<Rightarrow> Some n | _ \<Rightarrow> None)\<rparr>"

section \<open>Properties of the state machine\<close>

lemma calls_invoke [simp]: "calls (invoke k c) = calls c @ [k]"
  by (simp add: invoke_def)

lemma state_invoke [simp]: "state (invoke k c) = state c"
  by (simp add: invoke_def)

lemma isListening_invoke [simp]: "isListening (invoke k c) = isListening c"
  by (simp add: invoke_def)

lemma recognitionRef_invoke [simp]: "recognitionRef (invoke k c) = recognitionRef c"
  by (simp add: invoke_def)

lemma synthRef_invoke [simp]: "synthRef (invoke k c) = synthRef c"
  by (simp add: invoke_def)

lemma audioContextRef_invoke [simp]: "audioContextRef (invoke k c) = audioContextRef c"
  by (simp add: invoke_def)

lemma streamRef_invoke [simp]: "streamRef (invoke k c) = streamRef c"
  by (simp add: invoke_def)

text \<open>The cube ignores a click in every state but \<open>idle\<close>.\<close>

lemma Gawin_handleCubeClick_not_idle:
  "state c \<noteq> idle \<Longrightarrow> Gawin_handleCubeClick c = c"
  by (simp add: Gawin_handleCubeClick_def)

text \<open>
  The microphone button ignores a click while processing or speaking, and while the
  component takes itself to be listening a click asks the recognizer to stop.
\<close>

lemma AI_micButton_click_disabled:
  "state c = processing \<or> state c = speaking \<Longrightarrow> AI_micButton_click c = c"
  by (auto simp: AI_micButton_click_def)

lemma AI_micButton_click_isListening:
  "isListening c \<Longrightarrow>
     state (AI_micButton_click c) = state c \<and>
     RecognitionStart \<notin> set (issued AI_micButton_click c)"
  by (simp add: AI_micButton_click_def AI_stopListening_def issued_def)

text \<open>An error of the recognizer leads to \<open>idle\<close> from every state.\<close>

lemma onerror_idle: "state (onerror c) = idle \<and> \<not> isListening (onerror c)"
  by (simp add: onerror_def)

text \<open>
  A handler that read the live state would lead from \<open>listening\<close> to \<open>idle\<close> when the
  recognizer ends.
\<close>

lemma onend_reading_live:
  "state c = listening \<Longrightarrow> state (onend_reading (state c) c) = idle"
  by (simp add: onend_reading_def)

text \<open>The installed handler never changes the state.\<close>

lemma onend_state: "state (onend c) = state c \<and> \<not> isListening (onend c)"
  by (simp add: onend_def onend_reading_def initial_state_def)

text \<open>
  C5: the recognizer ends while the machine is \<open>listening\<close> and no transcript has been
  delivered. In \<open>GawinVoiceInterface\<close>, mounted with a recognizer: a click on the cube,
  the recognizer's \<open>onstart\<close>, then its \<open>onend\<close>. The state is still \<open>listening\<close>, and
  a further click on the cube is ignored.
\<close>

theorem onend_leaves_listening:
  "state (onend (onstart (Gawin_handleCubeClick (Gawin_mount True True)))) = listening
   \<and> Gawin_handleCubeClick (onend (onstart (Gawin_handleCubeClick (Gawin_mount True True))))
     = onend (onstart (Gawin_handleCubeClick (Gawin_mount True True)))"
  by (simp add: onend_def onend_reading_def onstart_def Gawin_handleCubeClick_def
      Gawin_mount_def initial_state_def invoke_def)

text \<open>
  C2: the start-listening input in a state other than \<open>idle\<close>. In \<open>AIVoiceInterface\<close>,
  mounted with a recognizer: a click on the microphone button, \<open>onstart\<close>, \<open>onend\<close>, and
  a second click. The second click finds the state \<open>listening\<close> and starts the
  recognizer again.
\<close>

theorem micButton_starts_while_listening:
  "state (onend (onstart (AI_micButton_click (AI_mount True True)))) = listening
   \<and> issued AI_micButton_click (onend (onstart (AI_micButton_click (AI_mount True True))))
     = [RecognitionStart]
   \<and> state (AI_micButton_click (onend (onstart (AI_micButton_click (AI_mount True True)))))
     = listening"
  by (simp add: issued_def onend_def onend_reading_def onstart_def AI_micButton_click_def
      AI_startListening_def AI_stopListening_def AI_mount_def initial_state_def invoke_def)

section \<open>Teardown releases every handle\<close>

lemma calls_stopTracks: "calls (stopTracks tracks c) = calls c @ map TrackStop tracks"
  by (induction tracks arbitrary: c) simp_all

lemma refs_stopTracks:
  "audioContextRef (stopTracks tracks c) = audioContextRef c \<and>
   recognitionRef (stopTracks tracks c) = recognitionRef c \<and>
   synthRef (stopTracks tracks c) = synthRef c"
  by (induction tracks arbitrary: c) simp_all

lemma issued_recognition_cleanup:
  "issued recognition_cleanup c =
     (if recognitionRef c then [RecognitionStop] else []) @
     (if synthRef c then [SynthCancel] else [])"
  by (simp add: issued_def recognition_cleanup_def Let_def)

lemma calls_recognition_cleanup:
  "calls (recognition_cleanup c) =
     calls c @ (if recognitionRef c then [RecognitionStop] else []) @
     (if synthRef c then [SynthCancel] else [])"
  by (simp add: recognition_cleanup_def Let_def)

lemma calls_audio_cleanup:
  "calls (audio_cleanup c) =
     calls c
     @ (case animationRef c of None \<Rightarrow> [] | Some frame \<Rightarrow> if frame = 0 then [] else [CancelAnimationFrame frame])
     @ (case streamRef c of None \<Rightarrow> [] | Some tracks \<Rightarrow> map TrackStop tracks)
     @ (if audioContextRef c then [AudioContextClose] else [])"
  by (simp add: audio_cleanup_def Let_def calls_stopTracks refs_stopTracks split: option.splits)

lemma refs_audio_cleanup:
  "recognitionRef (audio_cleanup c) = recognitionRef c \<and> synthRef (audio_cleanup c) = synthRef c"
  by (simp add: audio_cleanup_def Let_def refs_stopTracks split: option.splits)

lemma issued_Gawin_unmount:
  "issued Gawin_unmount c =
     (case animationRef c of None \<Rightarrow> [] | Some frame \<Rightarrow> if frame = 0 then [] else [CancelAnimationFrame frame])
     @ (case streamRef c of None \<Rightarrow> [] | Some tracks \<Rightarrow> map TrackStop tracks)
     @ (if audioContextRef c then [AudioContextClose] else [])
     @ (if recognitionRef c then [RecognitionStop] else [])
     @ (if synthRef c then [SynthCancel] else [])"
  by (simp add: issued_def Gawin_unmount_def calls_recognition_cleanup calls_audio_cleanup
      refs_audio_cleanup)

text \<open>
  C8: on unmount, for each resource whose ref holds a handle: every track of the media
  stream is stopped, the audio context is closed, the recognizer is stopped and the
  synthesizer is cancelled. \<open>AIVoiceInterface\<close> holds a recognizer and a synthesizer
  only.
\<close>

theorem teardown_releases:
  "(\<forall>tracks. streamRef c = Some tracks \<longrightarrow>
       (\<forall>track \<in> set tracks. TrackStop track \<in> set (issued Gawin_unmount c)))
   \<and> (audioContextRef c \<longrightarrow> AudioContextClose \<in> set (issued Gawin_unmount c))
   \<and> (recognitionRef c \<longrightarrow> RecognitionStop \<in> set (issued Gawin_unmount c))
   \<and> (synthRef c \<longrightarrow> SynthCancel \<in> set (issued Gawin_unmount c))
   \<and> (recognitionRef a \<longrightarrow> RecognitionStop \<in> set (issued AI_unmount a))
   \<and> (synthRef a \<longrightarrow> SynthCancel \<in> set (issued AI_unmount a))"
proof -
  have ai: "issued AI_unmount a =
      (if recognitionRef a then [RecognitionStop] else []) @
      (if synthRef a then [SynthCancel] else [])"
    by (simp add: issued_def AI_unmount_def calls_recognition_cleanup)
  show ?thesis
    by (simp add: issued_Gawin_unmount ai)
qed

theorem teardown_releases_witness:
  "TrackStop 0 \<in> set (issued Gawin_unmount (getUserMedia_resolved [0, 1] (initializeAudio True (Gawin_mount True True))))
   \<and> TrackStop 1 \<in> set (issued Gawin_unmount (getUserMedia_resolved [0, 1] (initializeAudio True (Gawin_mount True True))))
   \<and> AudioContextClose \<in> set (issued Gawin_unmount (getUserMedia_resolved [0, 1] (initializeAudio True (Gawin_mount True True))))
   \<and> RecognitionStop \<in> set (issued Gawin_unmount (getUserMedia_resolved [0, 1] (initializeAudio True (Gawin_mount True True))))
   \<and> SynthCancel \<in> set (issued Gawin_unmount (getUserMedia_resolved [0, 1] (initializeAudio True (Gawin_mount True True))))
   \<and> RecognitionStop \<in> set (issued AI_unmount (AI_mount True True))
   \<and> SynthCancel \<in> set (issued AI_unmount (AI_mount True True))"
  using teardown_releases [of "getUserMedia_resolved [0, 1] (initializeAudio True (Gawin_mount True True))" "AI_mount True True"]
  by (simp add: getUserMedia_resolved_def initializeAudio_def Gawin_mount_def AI_mount_def)

section \<open>The audio level is a mean of bytes\<close>

lemma foldl_sum:
  "foldl (\<lambda>sum v. sum + real (unat v)) s xs = s + sum_list (map (\<lambda>v. real (unat v)) xs)"
  by (induction xs arbitrary: s) simp_all

lemma byte_le: "real (unat (v :: 8 word)) \<le> 255"
proof -
  have "unat v < 2 ^ LENGTH(8)" by (rule unsigned_less)
  then have "unat v < 256" by simp
  then have "unat v \<le> 255" by arith
  then show ?thesis by (metis of_nat_le_iff of_nat_numeral)
qed

lemma byte_sum_le: "sum_list (map (\<lambda>v. real (unat (v :: 8 word))) xs) \<le> 255 * real (length xs)"
proof (induction xs)
  case Nil
  then show ?case by simp
next
  case (Cons x xs)
  have "sum_list (map (\<lambda>v. real (unat v)) (x # xs))
          = real (unat x) + sum_list (map (\<lambda>v. real (unat v)) xs)"
    by simp
  also have "\<dots> \<le> 255 + 255 * real (length xs)"
    using byte_le [of x] Cons.IH by (rule add_mono)
  also have "\<dots> = 255 * real (length (x # xs))"
    by (simp add: algebra_simps)
  finally show ?case .
qed

lemma byte_sum_ge: "0 \<le> sum_list (map (\<lambda>v. real (unat (v :: 8 word))) xs)"
  by (induction xs) (simp_all del: of_nat_unat)

lemma bufferLength_128: "bufferLength = 128"
  by (simp add: bufferLength_def frequencyBinCount_def fftSize_def)

text \<open>
  C7: for every array of frequency-bin samples, the published audio level is the
  arithmetic mean of the bins divided by 255, and it lies between 0 and 1. The bound
  comes from the element type of the array, a byte; the source has no clamp.
\<close>

theorem audioLevel_mean_in_unit_interval:
  assumes "length dataArray = bufferLength"
  shows "audioLevel (analyze dataArray frame c)
           = (sum_list (map (\<lambda>v. real (unat v)) dataArray) / real (length dataArray)) / 255
         \<and> 0 \<le> audioLevel (analyze dataArray frame c)
         \<and> audioLevel (analyze dataArray frame c) \<le> 1"
proof -
  let ?s = "sum_list (map (\<lambda>v. real (unat v)) dataArray)"
  have avg: "average dataArray = ?s / real bufferLength"
    unfolding average_def foldl_sum by simp
  have level: "audioLevel (analyze dataArray frame c) = (?s / real (length dataArray)) / 255"
    using assms avg by (simp add: analyze_def)
  have n: "real (length dataArray) = 128"
    using assms by (simp add: bufferLength_128)
  have lo: "0 \<le> ?s" by (rule byte_sum_ge)
  have hi: "?s \<le> 255 * 128" using byte_sum_le [of dataArray] n by simp
  have "0 \<le> (?s / 128) / 255" using lo by simp
  moreover have "(?s / 128) / 255 \<le> 1" using hi by simp
  ultimately show ?thesis using level n by simp
qed

theorem audioLevel_witness:
  "length (replicate 128 (255 :: 8 word)) = bufferLength
   \<and> audioLevel (analyze (replicate 128 255) 1 (Gawin_mount True True)) = 1"
  using audioLevel_mean_in_unit_interval [of "replicate 128 255" 1 "Gawin_mount True True"]
  by (simp add: bufferLength_128 sum_list_replicate)

section \<open>The chat route and the output cap\<close>

text \<open>
  For every request that is read and converted, the object handed to \<open>streamText\<close> has
  the same model, cap and temperature; only the messages and the signal come from the
  request.
\<close>

lemma POST_options:
  "POST convertToModelMessages (Some msgs) signal = UIMessageStream opts \<Longrightarrow>
     \<exists>prompt. convertToModelMessages msgs = Some prompt
       \<and> opts = [(''model'', LanguageModel ''gpt-4o-mini''), (''messages'', ModelMessages prompt),
                 (''abortSignal'', AbortSignal signal), (''maxTokens'', Number 150),
                 (''temperature'', Number (7 / 10))]"
  by (auto simp: POST_def split: option.splits)

lemma POST_no_output_cap:
  "POST convertToModelMessages body signal = UIMessageStream opts \<Longrightarrow>
     maxOutputTokens (streamText opts) = None
     \<and> providerModel (streamText opts) = Some ''gpt-4o-mini''
     \<and> providerTemperature (streamText opts) = Some (7 / 10)"
  by (auto simp: POST_def streamText_def split: option.splits)

text \<open>
  C9: the provider is invoked with the model \<open>gpt-4o-mini\<close>, an output cap of 150
  tokens and the temperature 0.7, and the route's maximum duration is 30 seconds. For a
  request with one message: the object handed to \<open>streamText\<close> carries the cap under the
  key \<open>maxTokens\<close> and has no key \<open>maxOutputTokens\<close>, so the provider is called with the
  model and the temperature of the claim and with no output cap.
\<close>

theorem POST_output_cap_not_passed:
  "POST Some (Some [''hello'']) ()
     = UIMessageStream
         [(''model'', LanguageModel ''gpt-4o-mini''), (''messages'', ModelMessages [''hello'']),
          (''abortSignal'', AbortSignal ()), (''maxTokens'', Number 150),
          (''temperature'', Number (7 / 10))]
   \<and> map_of [(''model'', LanguageModel ''gpt-4o-mini''), (''messages'', ModelMessages [''hello'']),
             (''abortSignal'', AbortSignal ()), (''maxTokens'', Number 150),
             (''temperature'', Number (7 / 10))] ''maxOutputTokens'' = None
   \<and> streamText
        [(''model'', LanguageModel ''gpt-4o-mini''), (''messages'', ModelMessages [''hello'']),
         (''abortSignal'', AbortSignal ()), (''maxTokens'', Number 150),
         (''temperature'', Number (7 / 10))]
       = \<lparr>providerModel = Some ''gpt-4o-mini'', maxOutputTokens = None,
          providerTemperature = Some (7 / 10)\<rparr>
   \<and> maxDuration = 30"
  by (simp add: POST_def streamText_def maxDuration_def)

section \<open>The read loop and the lines of the chunks\<close>

lemma processLine_contentField:
  "processLine N aiResponse line = aiResponse @ contentField N line"
  by (simp add: processLine_def contentField_def try_line_def get_content_def ToBoolean_def
      split: sum.splits jsval.splits option.splits)

lemma processLines_contentField:
  "processLines N aiResponse lines = aiResponse @ concat (map (contentField N) lines)"
  by (induction lines arbitrary: aiResponse) (simp_all add: processLine_contentField)

lemma processLines_append:
  "processLines N aiResponse (xs @ ys) = processLines N (processLines N aiResponse xs) ys"
  by (induction xs arbitrary: aiResponse) simp_all

lemma readLoop_processLines:
  "readLoop N aiResponse chunks Done = Inr (processLines N aiResponse (lines_of chunks))"
  by (induction chunks arbitrary: aiResponse) (simp_all add: lines_of_def processLines_append)

lemma readLoop_contentField:
  "readLoop N aiResponse chunks Done
     = Inr (aiResponse @ concat (map (contentField N) (lines_of chunks)))"
  by (simp add: readLoop_processLines processLines_contentField)

text \<open>A read that rejects loses what was accumulated: the error reaches the outer \<open>catch\<close>.\<close>

lemma readLoop_ReadRejects: "readLoop N aiResponse chunks ReadRejects = Inl NetworkError"
  by (induction chunks arbitrary: aiResponse) simp_all

lemma contentField_not_wellFormed: "\<not> wellFormedFrame line \<Longrightarrow> contentField N line = []"
  by (auto simp: wellFormedFrame_def contentField_def)

lemma contentField_blank: "contentField N [] = []"
  by (simp add: contentField_def startsWith_def js_def)

lemma concat_map_filter_nil:
  "(\<And>x. \<not> P x \<Longrightarrow> f x = []) \<Longrightarrow> concat (map f (filter P xs)) = concat (map f xs)"
  by (induction xs) simp_all

text \<open>The equations that evaluate \<open>JSON.parse\<close> and a line on a given text.\<close>

lemmas json_eval =
  JSON_parse_def js_def ch_def lex_step_def between_def escape_def isWhiteSpace_def isDigit_def
  lex_finish_def parse_step_def begin_value_def complete_value_def close_object_def
  close_array_def isNumberChar_def isNumber_def isFraction_def isExponent_def hexDigit_def

lemmas frame_eval =
  json_eval contentField_def startsWith_def ToBoolean_def

lemma frame_Hel: \<open>contentField N (js ''0:{"content":"Hel"}'') = js ''Hel''\<close>
  by (simp add: frame_eval)

lemma frame_lo: \<open>contentField N (js ''0:{"content":"lo"}'') = js ''lo''\<close>
  by (simp add: frame_eval)

lemma Hel_lo: "js ''Hel'' @ js ''lo'' = js ''Hello''"
  by (simp add: js_def)

text \<open>
  C3: a body of exactly the two content frames \<open>0:{"content":"Hel"}\<close> and
  \<open>0:{"content":"lo"}\<close>. The claim: the buffer at the end of the stream is \<open>Hello\<close>.
  The body below is those two frames, each ended by a line feed, delivered in two chunks
  of which the first ends inside the second frame; the buffer is \<open>Hel\<close>.
\<close>

theorem two_frames_cut:
  \<open>concat [js ''0:{"content":"Hel"}\<newline>0:{"con'', js ''tent":"lo"}\<newline>'']
     = js ''0:{"content":"Hel"}\<newline>0:{"content":"lo"}\<newline>''
   \<and> readLoop asWritten []
         [js ''0:{"content":"Hel"}\<newline>0:{"con'', js ''tent":"lo"}\<newline>''] Done
       = Inr (js ''Hel'')\<close>
  by (simp add: readLoop_contentField lines_of_def frame_eval)

text \<open>
  C3, amended: when each of the two frames arrives whole within a chunk, that is, when
  the lines of the chunks other than empty ones are exactly the two frames, the buffer at
  the end of the stream is \<open>Hello\<close>.
\<close>

theorem two_frames_whole:
  assumes \<open>filter (\<lambda>line. line \<noteq> []) (lines_of chunks)
             = [js ''0:{"content":"Hel"}'', js ''0:{"content":"lo"}'']\<close>
  shows "readLoop N [] chunks Done = Inr (js ''Hello'')"
proof -
  have "concat (map (contentField N) (lines_of chunks))
          = concat (map (contentField N) (filter (\<lambda>line. line \<noteq> []) (lines_of chunks)))"
    by (rule concat_map_filter_nil [symmetric]) (simp add: contentField_blank)
  also have "\<dots> = js ''Hel'' @ js ''lo''"
    unfolding assms by (simp add: frame_Hel frame_lo)
  also have "\<dots> = js ''Hello''"
    by (rule Hel_lo)
  finally show ?thesis
    by (simp add: readLoop_contentField)
qed

theorem two_frames_whole_witness:
  \<open>filter (\<lambda>line. line \<noteq> [])
       (lines_of [js ''0:{"content":"Hel"}\<newline>'', js ''0:{"content":"lo"}\<newline>''])
     = [js ''0:{"content":"Hel"}'', js ''0:{"content":"lo"}'']
   \<and> readLoop asWritten []
         [js ''0:{"content":"Hel"}\<newline>'', js ''0:{"content":"lo"}\<newline>''] Done
       = Inr (js ''Hello'')\<close>
proof -
  have h: \<open>filter (\<lambda>line. line \<noteq> [])
       (lines_of [js ''0:{"content":"Hel"}\<newline>'', js ''0:{"content":"lo"}\<newline>''])
     = [js ''0:{"content":"Hel"}'', js ''0:{"content":"lo"}'']\<close>
    by (simp add: lines_of_def js_def)
  show ?thesis using h two_frames_whole [OF h, of asWritten] by simp
qed

text \<open>
  C6: a malformed content frame is skipped and the stream goes on: the line leaves the
  buffer as it is, and the buffer at the end of any stream is the one its well-formed
  content frames produce on their own.
\<close>

theorem malformed_frames_skipped:
  "(malformedFrame line \<longrightarrow> processLine N aiResponse line = aiResponse)
   \<and> readLoop N [] chunks Done
       = Inr (processLines N [] (filter wellFormedFrame (lines_of chunks)))"
proof -
  have skip: "malformedFrame line \<longrightarrow> processLine N aiResponse line = aiResponse"
    by (simp add: malformedFrame_def processLine_def try_line_def)
  have "concat (map (contentField N) (filter wellFormedFrame (lines_of chunks)))
          = concat (map (contentField N) (lines_of chunks))"
    by (rule concat_map_filter_nil) (rule contentField_not_wellFormed)
  then have "readLoop N [] chunks Done
       = Inr (processLines N [] (filter wellFormedFrame (lines_of chunks)))"
    by (simp add: readLoop_contentField processLines_contentField)
  with skip show ?thesis by simp
qed

theorem malformed_frames_skipped_witness:
  \<open>malformedFrame (js ''0:{"content":'')
   \<and> processLine asWritten (js ''Hel'') (js ''0:{"content":'') = js ''Hel''
   \<and> filter wellFormedFrame
        (lines_of [js ''0:{"content":"Hel"}\<newline>0:{"content":\<newline>0:{"content":"lo"}''])
       = [js ''0:{"content":"Hel"}'', js ''0:{"content":"lo"}'']
   \<and> readLoop asWritten []
        [js ''0:{"content":"Hel"}\<newline>0:{"content":\<newline>0:{"content":"lo"}''] Done
       = Inr (js ''Hello'')\<close>
proof -
  have m: \<open>malformedFrame (js ''0:{"content":'')\<close>
    by (simp add: malformedFrame_def startsWith_def json_eval)
  have f: \<open>filter wellFormedFrame
        (lines_of [js ''0:{"content":"Hel"}\<newline>0:{"content":\<newline>0:{"content":"lo"}''])
       = [js ''0:{"content":"Hel"}'', js ''0:{"content":"lo"}'']\<close>
    by (simp add: lines_of_def wellFormedFrame_def startsWith_def json_eval)
  have p: \<open>processLines asWritten [] [js ''0:{"content":"Hel"}'', js ''0:{"content":"lo"}'']
             = js ''Hello''\<close>
    by (simp add: processLine_contentField frame_Hel frame_lo Hel_lo)
  show ?thesis
    using m f p
      malformed_frames_skipped [of \<open>js ''0:{"content":''\<close> asWritten \<open>js ''Hel''\<close>
        \<open>[js ''0:{"content":"Hel"}\<newline>0:{"content":\<newline>0:{"content":"lo"}'']\<close>]
    by simp
qed

section \<open>A frame cut by a chunk boundary\<close>

text \<open>
  The split of a chunk: its lines hold no line feed and make up the chunk again.
\<close>

lemma split_newline_nonempty: "split_newline s \<noteq> []"
  by (induction s) (auto split: list.splits)

lemma join_split_newline: "join_newline (split_newline s) = s"
proof (induction s)
  case Nil
  then show ?case by simp
next
  case (Cons c s)
  obtain line lines where sp: "split_newline s = line # lines"
    using split_newline_nonempty [of s] by (cases "split_newline s") auto
  show ?case
  proof (cases "c = 0x0A")
    case True
    then show ?thesis using Cons sp by simp
  next
    case False
    then show ?thesis using Cons sp by (cases lines) simp_all
  qed
qed

lemma split_newline_lines: "list_all (\<lambda>line. 0x0A \<notin> set line) (split_newline s)"
  by (induction s) (auto split: list.splits)

lemma split_newline_free: "0x0A \<notin> set s \<Longrightarrow> split_newline s = [s]"
  by (induction s) auto

text \<open>
  The scanner on a text in two parts, and the tokens it adds.
\<close>

lemma lexer_lex_run:
  "lexer m toks (a @ b) =
     (case lex_run m toks a of None \<Rightarrow> None | Some (m1, t1) \<Rightarrow> lexer m1 t1 b)"
  by (induction a arbitrary: m toks) (auto split: option.splits)

lemma between_tokens:
  "between toks c = Some (m1, t1) \<Longrightarrow>
     (t1 = toks \<or> (\<exists>T. t1 = T # toks)) \<and> (t1 = toks \<and> m1 = Between \<longrightarrow> isWhiteSpace c)"
  by (auto simp: between_def split: if_splits)

lemma lex_step_tokens:
  "lex_step m toks c = Some (m1, t1) \<Longrightarrow>
     (\<exists>extra. t1 = extra @ toks) \<and> (t1 = toks \<and> m1 = Between \<longrightarrow> m = Between \<and> isWhiteSpace c)"
  by (cases m) (auto simp: lex_step_def split: if_splits option.splits list.splits dest!: between_tokens)

lemma lexer_tokens:
  "lexer m toks cs = Some ts \<Longrightarrow>
     \<exists>extra. ts = rev toks @ extra \<and> (extra = [] \<longrightarrow> m = Between \<and> list_all isWhiteSpace cs)"
proof (induction cs arbitrary: m toks)
  case Nil
  then show ?case by (cases m) (auto simp: lex_finish_def split: if_splits)
next
  case (Cons c cs)
  from Cons.prems obtain m1 t1 where st: "lex_step m toks c = Some (m1, t1)"
    and rest: "lexer m1 t1 cs = Some ts"
    by (auto split: option.splits)
  from lex_step_tokens [OF st] obtain extra0 where e0: "t1 = extra0 @ toks"
    and b: "t1 = toks \<and> m1 = Between \<longrightarrow> m = Between \<and> isWhiteSpace c"
    by blast
  from Cons.IH [OF rest] obtain extra1 where e1: "ts = rev t1 @ extra1"
    and w: "extra1 = [] \<longrightarrow> m1 = Between \<and> list_all isWhiteSpace cs"
    by blast
  have "ts = rev toks @ (rev extra0 @ extra1)" using e0 e1 by simp
  moreover have "rev extra0 @ extra1 = [] \<longrightarrow> m = Between \<and> list_all isWhiteSpace (c # cs)"
    using e0 b w by auto
  ultimately show ?case by blast
qed


text \<open>
  The stack machine takes no token after a complete value, ends on a number only when
  the text is that number, and takes no colon after a number.
\<close>

lemma parser_Finished: "parser (Finished v) stack ts = Some w \<Longrightarrow> ts = []"
  by (cases ts) (simp_all add: parse_step_def)

lemma parser_prefix:
  "parser e stack a = Some v \<Longrightarrow> parser e stack (a @ b) = Some w \<Longrightarrow> b = []"
proof (induction a arbitrary: e stack)
  case Nil
  then show ?case by (cases e) (auto dest: parser_Finished)
next
  case (Cons t a)
  then show ?case by (auto split: option.splits)
qed

lemma complete_value_expect:
  "complete_value v stack = Some (e1, stack1) \<Longrightarrow>
     (e1 = Finished v \<and> stack = []) \<or> (e1 = Separator \<and> stack1 \<noteq> [] \<and> (case hd stack1 of KeyFrame k \<Rightarrow> False | _ \<Rightarrow> True))"
  by (auto simp: complete_value_def split: list.splits frame.splits)

lemma parse_step_NUMBER:
  "parse_step e stack (NUMBER n) = Some (e1, stack1) \<Longrightarrow>
     (e1 = Finished (JNumber n)) \<or> e1 = Separator"
  by (cases e) (auto simp: parse_step_def begin_value_def split: list.splits frame.splits if_splits
      dest!: complete_value_expect)

lemma parse_step_COLON_after_value:
  "e = Separator \<or> e = Finished v \<Longrightarrow> parse_step e stack COLON = None"
  by (auto simp: parse_step_def split: list.splits frame.splits)

lemma parser_last_NUMBER:
  "parser e stack (a @ [NUMBER n]) = Some v \<Longrightarrow> v = JNumber n"
proof (induction a arbitrary: e stack)
  case Nil
  then obtain e1 stack1 where st: "parse_step e stack (NUMBER n) = Some (e1, stack1)"
    and fin: "parser e1 stack1 [] = Some v"
    by (auto split: option.splits)
  from parse_step_NUMBER [OF st] fin show ?case by auto
next
  case (Cons t a)
  then show ?case by (auto split: option.splits)
qed

lemma parser_NUMBER_COLON:
  "parser e stack (a @ NUMBER n # COLON # b) = None"
proof (induction a arbitrary: e stack)
  case Nil
  show ?case
  proof (cases "parse_step e stack (NUMBER n)")
    case None
    then show ?thesis by simp
  next
    case (Some p)
    obtain e1 stack1 where p: "p = (e1, stack1)" by (cases p)
    from parse_step_NUMBER [of e stack n e1 stack1] Some p
    have "e1 = Finished (JNumber n) \<or> e1 = Separator" by simp
    then have "parse_step e1 stack1 COLON = None"
      by (auto intro: parse_step_COLON_after_value)
    then show ?thesis using Some p by simp
  qed
next
  case (Cons t a)
  then show ?case by (auto split: option.splits)
qed

text \<open>
  When a text parses and a part of it from the start parses to an object, the rest is
  white space.
\<close>

lemma JSON_parse_object_prefix:
  assumes p: "JSON_parse p = Inr (JObject members)"
    and t: "JSON_parse (p @ r) = Inr v"
  shows "list_all isWhiteSpace r"
proof -
  from p obtain ts where lp: "lexer Between [] p = Some ts"
    and pp: "parser Value [] ts = Some (JObject members)"
    by (auto simp: JSON_parse_def split: option.splits)
  from t obtain ts' where lt: "lexer Between [] (p @ r) = Some ts'"
    and pt: "parser Value [] ts' = Some v"
    by (auto simp: JSON_parse_def split: option.splits)
  from lt obtain m1 t1 where run: "lex_run Between [] p = Some (m1, t1)"
    and rest: "lexer m1 t1 r = Some ts'"
    by (auto simp: lexer_lex_run split: option.splits)
  have fin: "lex_finish m1 t1 = Some ts"
    using lp run lexer_lex_run [of Between "[]" p "[]"] by simp
  from lexer_tokens [OF rest] obtain extra where e: "ts' = rev t1 @ extra"
    and w: "extra = [] \<longrightarrow> m1 = Between \<and> list_all isWhiteSpace r"
    by blast
  show ?thesis
  proof (cases m1)
    case Between
    then have "ts = rev t1" using fin by (simp add: lex_finish_def)
    then have "extra = []" using parser_prefix [OF pp] pt e by simp
    then show ?thesis using w by simp
  next
    case (InNumber s)
    then have "ts = rev t1 @ [NUMBER (rev s)]"
      using fin by (auto simp: lex_finish_def split: if_splits)
    then have "JObject members = JNumber (rev s)"
      using parser_last_NUMBER pp by blast
    then show ?thesis by simp
  qed (use fin in \<open>simp_all add: lex_finish_def\<close>)
qed

text \<open>
  The scanner started between tokens has only letters left to come in a literal.
\<close>

lemma between_wf: "between toks c = Some (m1, t1) \<Longrightarrow> wf_mode m1"
  by (auto simp: between_def wf_mode_def js_def isLower_def ch_def split: if_splits)

lemma lex_step_wf: "wf_mode m \<Longrightarrow> lex_step m toks c = Some (m1, t1) \<Longrightarrow> wf_mode m1"
  by (cases m) (auto simp: lex_step_def wf_mode_def split: if_splits option.splits list.splits
      dest: between_wf [unfolded wf_mode_def])

lemma lex_run_wf: "wf_mode m \<Longrightarrow> lex_run m toks cs = Some (m1, t1) \<Longrightarrow> wf_mode m1"
  by (induction cs arbitrary: m toks) (auto split: option.splits dest: lex_step_wf)


text \<open>
  White space after a text changes nothing of what \<open>JSON.parse\<close> makes of it.
\<close>

lemma isWhiteSpace_not_lower: "isWhiteSpace c \<Longrightarrow> \<not> isLower c \<and> \<not> isNumberChar c \<and> hexDigit c = None \<and> escape c = None \<and> c \<noteq> ch CHR ''u'' \<and> c \<noteq> ch CHR 0x22 \<and> c \<noteq> ch CHR 0x5C"
  by (auto simp: isWhiteSpace_def isLower_def isNumberChar_def isDigit_def hexDigit_def escape_def ch_def)

lemma lex_step_white:
  assumes "isWhiteSpace c" "wf_mode m"
  shows "(lex_step m toks c = None \<and> lex_finish m toks = None)
       \<or> (\<exists>m1 t1. lex_step m toks c = Some (m1, t1) \<and> wf_mode m1 \<and> lex_finish m1 t1 = lex_finish m toks)"
proof (cases m)
  case Between
  then show ?thesis using assms by (simp add: lex_step_def between_def wf_mode_def)
next
  case (InString s)
  then show ?thesis using assms isWhiteSpace_not_lower [of c]
    by (auto simp: lex_step_def lex_finish_def wf_mode_def)
next
  case (InEscape s)
  then show ?thesis using assms isWhiteSpace_not_lower [of c]
    by (auto simp: lex_step_def lex_finish_def wf_mode_def)
next
  case (InUnicode s n v)
  then show ?thesis using assms isWhiteSpace_not_lower [of c]
    by (auto simp: lex_step_def lex_finish_def wf_mode_def)
next
  case (InNumber s)
  then show ?thesis using assms isWhiteSpace_not_lower [of c]
    by (auto simp: lex_step_def lex_finish_def wf_mode_def between_def)
next
  case (InLiteral rest v)
  then show ?thesis using assms isWhiteSpace_not_lower [of c]
    by (cases rest) (auto simp: lex_step_def lex_finish_def wf_mode_def)
qed

lemma lexer_white:
  "list_all isWhiteSpace r \<Longrightarrow> wf_mode m \<Longrightarrow> lexer m toks r = lex_finish m toks"
proof (induction r arbitrary: m toks)
  case Nil
  then show ?case by simp
next
  case (Cons c r)
  then have c: "isWhiteSpace c" and r: "list_all isWhiteSpace r" by simp_all
  from lex_step_white [OF c Cons.prems(2), of toks] show ?case
  proof
    assume "lex_step m toks c = None \<and> lex_finish m toks = None"
    then show ?thesis by simp
  next
    assume "\<exists>m1 t1. lex_step m toks c = Some (m1, t1) \<and> wf_mode m1 \<and> lex_finish m1 t1 = lex_finish m toks"
    then obtain m1 t1 where "lex_step m toks c = Some (m1, t1)" "wf_mode m1"
      "lex_finish m1 t1 = lex_finish m toks" by blast
    then show ?thesis using Cons.IH [OF r, of m1 t1] by simp
  qed
qed

lemma JSON_parse_white:
  assumes "list_all isWhiteSpace r"
  shows "JSON_parse (p @ r) = JSON_parse p"
proof -
  have "lexer Between [] (p @ r) = lexer Between [] p"
  proof (cases "lex_run Between [] p")
    case None
    then show ?thesis using lexer_lex_run [of Between "[]" p r] lexer_lex_run [of Between "[]" p "[]"] by simp
  next
    case (Some q)
    obtain m1 t1 where q: "q = (m1, t1)" by (cases q)
    have wf: "wf_mode m1" using lex_run_wf [of Between "[]" p m1 t1] Some q by (simp add: wf_mode_def)
    show ?thesis
      using lexer_lex_run [of Between "[]" p r] lexer_lex_run [of Between "[]" p "[]"] Some q
        lexer_white [OF assms wf, of t1] by simp
  qed
  then show ?thesis by (simp add: JSON_parse_def)
qed

text \<open>
  Two scanners on the same text, one inside a string and one outside: a quote swaps
  their places and a backslash stops the one outside, so the two do not both finish.
\<close>

lemma between_plain:
  "between toks c = Some (m1, t1) \<Longrightarrow>
     (c = ch CHR 0x22 \<and> quoted m1) \<or> (c \<noteq> ch CHR 0x22 \<and> c \<noteq> ch CHR 0x5C \<and> plain m1)"
  by (auto simp: between_def plain_def quoted_def js_def isLower_def ch_def isWhiteSpace_def isDigit_def split: if_splits)

lemma plain_step:
  assumes "plain m" "lex_step m toks c = Some (m1, t1)"
  shows "(c = ch CHR 0x22 \<and> quoted m1) \<or> (c \<noteq> ch CHR 0x22 \<and> c \<noteq> ch CHR 0x5C \<and> plain m1)"
proof (cases m)
  case Between
  then show ?thesis using assms between_plain [of toks c m1 t1] by (simp add: lex_step_def)
next
  case (InNumber s)
  show ?thesis
  proof (cases "isNumberChar c")
    case True
    then show ?thesis using assms InNumber
      by (auto simp: lex_step_def plain_def isNumberChar_def isDigit_def ch_def)
  next
    case False
    then show ?thesis using assms InNumber between_plain [of "NUMBER (rev s) # toks" c m1 t1]
      by (auto simp: lex_step_def split: if_splits)
  qed
next
  case (InLiteral rest v)
  then show ?thesis using assms
    by (cases rest) (auto simp: lex_step_def plain_def isLower_def ch_def split: if_splits)
qed (use assms in \<open>simp_all add: plain_def\<close>)

lemma quoted_step:
  assumes "quoted m" "lex_step m toks c = Some (m1, t1)"
  shows "(c = ch CHR 0x22 \<and> m1 = Between) \<or> (c = ch CHR 0x5C) \<or> (c \<noteq> ch CHR 0x22 \<and> c \<noteq> ch CHR 0x5C \<and> quoted m1)"
  using assms by (cases m) (auto simp: quoted_def lex_step_def split: if_splits)

lemma quote_not_backslash: "ch CHR 0x22 \<noteq> ch CHR 0x5C"
  by (simp add: ch_def)

lemma plain_Between: "plain Between"
  by (simp add: plain_def)

lemma lexers_disagree:
  "(quoted m1 \<and> plain m2) \<or> (plain m1 \<and> quoted m2) \<Longrightarrow>
     lexer m1 t1 cs = Some a \<Longrightarrow> lexer m2 t2 cs = None"
proof (induction cs arbitrary: m1 t1 m2 t2)
  case Nil
  then show ?case
    by (cases m1; cases m2) (auto simp: quoted_def plain_def lex_finish_def)
next
  case (Cons c cs)
  from Cons.prems(2) obtain n1 u1 where s1: "lex_step m1 t1 c = Some (n1, u1)"
    and r1: "lexer n1 u1 cs = Some a"
    by (auto split: option.splits)
  show ?case
  proof (cases "lex_step m2 t2 c")
    case None
    then show ?thesis by simp
  next
    case (Some q)
    obtain n2 u2 where q: "q = (n2, u2)" by (cases q)
    have s2: "lex_step m2 t2 c = Some (n2, u2)" using Some q by simp
    have "(quoted n1 \<and> plain n2) \<or> (plain n1 \<and> quoted n2)"
      using Cons.prems(1)
    proof
      assume "quoted m1 \<and> plain m2"
      then show ?thesis
        using quoted_step [of m1 t1 c n1 u1] plain_step [of m2 t2 c n2 u2] s1 s2
          quote_not_backslash plain_Between
        by auto
    next
      assume "plain m1 \<and> quoted m2"
      then show ?thesis
        using quoted_step [of m2 t2 c n2 u2] plain_step [of m1 t1 c n1 u1] s1 s2
          quote_not_backslash plain_Between
        by auto
    qed
    from Cons.IH [OF this r1, of u2] show ?thesis using s2 by simp
  qed
qed


text \<open>
  Inside a text that parses, \<open>0:\<close> stands in a string, and what follows it does not
  parse.
\<close>

lemma lex_run_0_colon:
  assumes "wf_mode m" "lex_run m toks (js ''0:'') = Some (m1, t1)"
  shows "quoted m1 \<or> (\<exists>n. t1 = COLON # NUMBER n # toks)"
proof (cases m)
  case Between
  then show ?thesis using assms
    by (auto simp: js_def lex_step_def between_def isWhiteSpace_def isDigit_def ch_def
        isNumberChar_def split: if_splits)
next
  case (InString s)
  then show ?thesis using assms
    by (auto simp: js_def lex_step_def quoted_def ch_def split: if_splits)
next
  case (InEscape s)
  then show ?thesis using assms
    by (auto simp: js_def lex_step_def escape_def ch_def split: if_splits)
next
  case (InUnicode s n v)
  then show ?thesis using assms
    by (auto simp: js_def lex_step_def hexDigit_def quoted_def ch_def split: if_splits option.splits)
next
  case (InNumber s)
  then show ?thesis using assms
    by (auto simp: js_def lex_step_def between_def isWhiteSpace_def isDigit_def ch_def
        isNumberChar_def split: if_splits)
next
  case (InLiteral rest v)
  then show ?thesis using assms
    by (cases rest) (auto simp: js_def lex_step_def wf_mode_def isLower_def ch_def split: if_splits)
qed

lemma lex_run_append:
  "lex_run m toks (a @ b) =
     (case lex_run m toks a of None \<Rightarrow> None | Some (m1, t1) \<Rightarrow> lex_run m1 t1 b)"
  by (induction a arbitrary: m toks) (auto split: option.splits)

lemma JSON_parse_after_0_colon:
  assumes t: "JSON_parse (x @ js ''0:'' @ y) = Inr v"
  shows "JSON_parse y = Inl SyntaxError"
proof -
  from t obtain ts where lt: "lexer Between [] (x @ js ''0:'' @ y) = Some ts"
    and pt: "parser Value [] ts = Some v"
    by (auto simp: JSON_parse_def split: option.splits)
  have "lexer Between [] ((x @ js ''0:'') @ y) = Some ts" using lt by simp
  then obtain m1 t1 where run: "lex_run Between [] (x @ js ''0:'') = Some (m1, t1)"
    and rest: "lexer m1 t1 y = Some ts"
    unfolding lexer_lex_run by (auto split: option.splits)
  from run obtain m0 t0 where run0: "lex_run Between [] x = Some (m0, t0)"
    and run1: "lex_run m0 t0 (js ''0:'') = Some (m1, t1)"
    unfolding lex_run_append by (auto split: option.splits)
  have wf0: "wf_mode m0" using lex_run_wf [OF _ run0] by (simp add: wf_mode_def)
  from lex_run_0_colon [OF wf0 run1] show ?thesis
  proof
    assume "quoted m1"
    then have "lexer Between [] y = None"
      using lexers_disagree [of m1 Between t1 y ts "[]"] rest plain_Between by simp
    then show ?thesis by (simp add: JSON_parse_def)
  next
    assume "\<exists>n. t1 = COLON # NUMBER n # t0"
    then obtain n where t1: "t1 = COLON # NUMBER n # t0" by blast
    from lexer_tokens [OF rest] obtain extra where "ts = rev t1 @ extra" by blast
    then have "ts = rev t0 @ NUMBER n # COLON # extra" using t1 by simp
    then have "parser Value [] ts = None" using parser_NUMBER_COLON by simp
    then show ?thesis using pt by simp
  qed
qed

text \<open>
  The two fragments of a frame cut after \<open>k\<close> code units.
\<close>

lemma contentField_second_fragment:
  assumes "JSON_parse t = Inr v" "0 < k"
  shows "contentField N (drop k (js ''0:'' @ t)) = []"
proof (cases "startsWith (drop k (js ''0:'' @ t)) (js ''0:'')")
  case False
  then show ?thesis by (simp add: contentField_def)
next
  case True
  have two: "length (js ''0:'') = 2" by (simp add: js_def)
  have k2: "2 \<le> k"
  proof (rule ccontr)
    assume "\<not> 2 \<le> k"
    then have "k = 1" using assms(2) by simp
    then show False using True by (simp add: startsWith_def js_def ch_def)
  qed
  then have d: "drop k (js ''0:'' @ t) = drop (k - 2) t" using two by simp
  from True have "take 2 (drop (k - 2) t) = js ''0:''"
    using d two by (simp add: startsWith_def)
  then have "drop (k - 2) t = js ''0:'' @ drop 2 (drop (k - 2) t)"
    by (metis append_take_drop_id)
  then have "t = take (k - 2) t @ js ''0:'' @ drop 2 (drop (k - 2) t)"
    by (metis append_take_drop_id)
  then have "JSON_parse (drop 2 (drop (k - 2) t)) = Inl SyntaxError"
    using JSON_parse_after_0_colon [of "take (k - 2) t" "drop 2 (drop (k - 2) t)" v] assms(1)
    by simp
  then show ?thesis using d by (simp add: contentField_def)
qed

lemma contentField_object:
  "contentField N line \<noteq> [] \<Longrightarrow> \<exists>members. JSON_parse (drop 2 line) = Inr (JObject members)"
  by (auto simp: contentField_def split: if_splits sum.splits jsval.splits)

lemma not_white_colon: "\<not> isWhiteSpace (ch CHR '':'')"
  by (simp add: isWhiteSpace_def ch_def)

lemma contentField_first_fragment:
  assumes "JSON_parse t = Inr v"
  shows "contentField N (take k (js ''0:'' @ t))
           = (if list_all isWhiteSpace (drop k (js ''0:'' @ t)) then contentField N (js ''0:'' @ t)
              else [])"
proof (cases "2 \<le> k")
  case False
  then have "k = 0 \<or> k = 1" by arith
  then have a: "contentField N (take k (js ''0:'' @ t)) = []"
    by (auto simp: contentField_def startsWith_def js_def)
  have "\<not> list_all isWhiteSpace (drop k (js ''0:'' @ t))"
    using \<open>k = 0 \<or> k = 1\<close> not_white_colon by (auto simp: js_def ch_def)
  then have "(if list_all isWhiteSpace (drop k (js ''0:'' @ t))
              then contentField N (js ''0:'' @ t) else []) = []"
    by (rule if_not_P)
  with a show ?thesis by (simp only:)
next
  case True
  have two: "length (js ''0:'') = 2" by (simp add: js_def)
  have tk: "take k (js ''0:'' @ t) = js ''0:'' @ take (k - 2) t" using True two by simp
  have dk: "drop k (js ''0:'' @ t) = drop (k - 2) t" using True two by simp
  have st: "startsWith (js ''0:'' @ u) (js ''0:'')" for u by (simp add: startsWith_def)
  have d2: "drop 2 (js ''0:'' @ u) = u" for u using two by simp
  show ?thesis
  proof (cases "list_all isWhiteSpace (drop (k - 2) t)")
    case True
    have "JSON_parse (take (k - 2) t @ drop (k - 2) t) = JSON_parse (take (k - 2) t)"
      using True by (rule JSON_parse_white)
    then have eq: "JSON_parse (take (k - 2) t) = JSON_parse t" by simp
    have "contentField N (js ''0:'' @ take (k - 2) t) = contentField N (js ''0:'' @ t)"
      unfolding contentField_def by (simp only: st d2 if_True eq)
    then show ?thesis using True tk dk by simp
  next
    case False
    have "contentField N (js ''0:'' @ take (k - 2) t) = []"
    proof (rule ccontr)
      assume "contentField N (js ''0:'' @ take (k - 2) t) \<noteq> []"
      from contentField_object [OF this] obtain members
        where "JSON_parse (take (k - 2) t) = Inr (JObject members)" unfolding d2 by blast
      moreover have "JSON_parse (take (k - 2) t @ drop (k - 2) t) = Inr v"
        using assms by simp
      ultimately have "list_all isWhiteSpace (drop (k - 2) t)"
        by (rule JSON_parse_object_prefix)
      then show False using False by simp
    qed
    then show ?thesis using False tk dk by simp
  qed
qed

text \<open>
  A frame cut between two chunks of a stream.
\<close>

lemma split_newline_append:
  "split_newline (a @ 0x0A # b) = split_newline a @ split_newline b"
proof (induction a)
  case Nil
  then show ?case by simp
next
  case (Cons c a)
  obtain line lines where "split_newline a = line # lines"
    using split_newline_nonempty [of a] by (cases "split_newline a") auto
  then show ?case using Cons by simp
qed

lemma split_newline_last:
  "0x0A \<notin> set l \<Longrightarrow> split_newline (a @ 0x0A # l) = split_newline a @ [l]"
  by (simp add: split_newline_append split_newline_free)

lemma split_newline_first:
  "0x0A \<notin> set l \<Longrightarrow> split_newline (l @ 0x0A # b) = l # split_newline b"
  by (simp add: split_newline_append split_newline_free)

lemma cut_frame_in_stream:
  assumes t: "JSON_parse t = Inr v" and nl: "0x0A \<notin> set t" and k: "0 < k"
  shows "readLoop N []
           [before @ [0x0A] @ take k (js ''0:'' @ t), drop k (js ''0:'' @ t) @ [0x0A] @ after] Done
         = (if list_all isWhiteSpace (drop k (js ''0:'' @ t))
            then readLoop N [] [before @ [0x0A] @ (js ''0:'' @ t) @ [0x0A] @ after] Done
            else readLoop N [] [before @ [0x0A] @ after] Done)"
proof -
  define L where "L = js ''0:'' @ t"
  define A where "A = take k L"
  define B where "B = drop k L"
  have nlL: "0x0A \<notin> set L" using nl by (simp add: L_def js_def)
  have a: "0x0A \<notin> set A" using nlL unfolding A_def by (meson in_set_takeD)
  have b: "0x0A \<notin> set B" using nlL unfolding B_def by (meson in_set_dropD)
  have l1: "lines_of [before @ [0x0A] @ A, B @ [0x0A] @ after]
              = split_newline before @ [A] @ [B] @ split_newline after"
    using split_newline_last [OF a, of before] split_newline_first [OF b, of after]
    by (simp add: lines_of_def)
  have l2: "lines_of [before @ [0x0A] @ L @ [0x0A] @ after]
              = split_newline before @ [L] @ split_newline after"
    using split_newline_first [OF nlL, of after]
    by (simp add: lines_of_def split_newline_append)
  have l3: "lines_of [before @ [0x0A] @ after] = split_newline before @ split_newline after"
    by (simp add: lines_of_def split_newline_append)
  have s: "contentField N B = []"
    unfolding B_def L_def using contentField_second_fragment [OF t k] .
  have f: "contentField N A = (if list_all isWhiteSpace B then contentField N L else [])"
    unfolding A_def B_def L_def using contentField_first_fragment [OF t] .
  have "readLoop N [] [before @ [0x0A] @ A, B @ [0x0A] @ after] Done
         = (if list_all isWhiteSpace B
            then readLoop N [] [before @ [0x0A] @ L @ [0x0A] @ after] Done
            else readLoop N [] [before @ [0x0A] @ after] Done)"
    unfolding readLoop_contentField l1 l2 l3 by (simp add: s f)
  then show ?thesis unfolding A_def B_def L_def .
qed

text \<open>
  C10: a content frame whose bytes span a chunk boundary. The claim: it contributes
  nothing, since neither fragment passes the check of prefix and \<open>JSON.parse\<close>. The
  body below is one frame ended by carriage return and line feed, so its line ends in a
  carriage return, which \<open>JSON.parse\<close> takes for white space. The chunk boundary falls
  before the carriage return: the first fragment is a complete frame, and the frame
  contributes its content.
\<close>

theorem cut_frame_contributes:
  \<open>split_newline (js ''0:{"content":"a"}'' @ [0x0D, 0x0A])
     = [js ''0:{"content":"a"}'' @ [0x0D], []]
   \<and> contentField asWritten (js ''0:{"content":"a"}'' @ [0x0D]) = js ''a''
   \<and> readLoop asWritten [] [js ''0:{"content":"a"}'', [0x0D, 0x0A]] Done = Inr (js ''a'')\<close>
  by (simp add: readLoop_contentField lines_of_def frame_eval)

text \<open>
  C10, amended: each chunk is split on line feeds on its own (its lines hold no line feed
  and, joined by line feeds, are the chunk), and the buffer at the end of a stream is the
  concatenation of the \<open>content\<close> fields of the content frames among the lines so
  obtained: a frame with a \<open>content\<close> string contributes that string, a line without
  the prefix or whose remainder does not parse contributes nothing. A content frame cut
  by a chunk boundary contributes nothing when anything but white space follows the cut,
  and its whole content when only white space follows the cut: the second fragment never
  passes the check of prefix and \<open>JSON.parse\<close>, and the first passes it exactly when
  what was cut off is white space.
\<close>

theorem chunks_split_independently:
  \<open>readLoop N [] chunks Done
     = Inr (concat (map (contentField N) (concat (map split_newline chunks))))
   \<and> split_newline chunk \<noteq> []
   \<and> join_newline (split_newline chunk) = chunk
   \<and> list_all (\<lambda>line. 0x0A \<notin> set line) (split_newline chunk)
   \<and> (startsWith line (js ''0:'') \<and> JSON_parse (drop 2 line) = Inr (JObject members)
        \<and> map_of (rev members) (js ''content'') = Some (JString s)
      \<longrightarrow> contentField N line = s)
   \<and> (\<not> startsWith line (js ''0:'') \<or> JSON_parse (drop 2 line) = Inl SyntaxError
      \<longrightarrow> contentField N line = [])
   \<and> (JSON_parse t = Inr v \<and> 0 < k \<and> k < length (js ''0:'' @ t)
      \<longrightarrow> contentField N (drop k (js ''0:'' @ t)) = []
          \<and> contentField N (take k (js ''0:'' @ t))
              = (if list_all isWhiteSpace (drop k (js ''0:'' @ t))
                 then contentField N (js ''0:'' @ t) else []))
   \<and> (JSON_parse t = Inr v \<and> 0x0A \<notin> set t \<and> 0 < k \<and> k < length (js ''0:'' @ t)
      \<longrightarrow> readLoop N []
            [before @ [0x0A] @ take k (js ''0:'' @ t),
             drop k (js ''0:'' @ t) @ [0x0A] @ after] Done
          = (if list_all isWhiteSpace (drop k (js ''0:'' @ t))
             then readLoop N [] [before @ [0x0A] @ (js ''0:'' @ t) @ [0x0A] @ after] Done
             else readLoop N [] [before @ [0x0A] @ after] Done))\<close>
proof -
  have a: "readLoop N [] chunks Done
     = Inr (concat (map (contentField N) (concat (map split_newline chunks))))"
    by (simp add: readLoop_contentField lines_of_def)
  have b: "startsWith line (js ''0:'') \<and> JSON_parse (drop 2 line) = Inr (JObject members)
        \<and> map_of (rev members) (js ''content'') = Some (JString s)
      \<longrightarrow> contentField N line = s"
    by (simp add: contentField_def ToBoolean_def)
  have c: "\<not> startsWith line (js ''0:'') \<or> JSON_parse (drop 2 line) = Inl SyntaxError
      \<longrightarrow> contentField N line = []"
    by (auto simp: contentField_def)
  have d: "JSON_parse t = Inr v \<and> 0 < k \<and> k < length (js ''0:'' @ t)
      \<longrightarrow> contentField N (drop k (js ''0:'' @ t)) = []
          \<and> contentField N (take k (js ''0:'' @ t))
              = (if list_all isWhiteSpace (drop k (js ''0:'' @ t))
                 then contentField N (js ''0:'' @ t) else [])"
    using contentField_second_fragment [of t v k N] contentField_first_fragment [of t v N k]
    by blast
  have e: "JSON_parse t = Inr v \<and> 0x0A \<notin> set t \<and> 0 < k \<and> k < length (js ''0:'' @ t)
      \<longrightarrow> readLoop N []
            [before @ [0x0A] @ take k (js ''0:'' @ t),
             drop k (js ''0:'' @ t) @ [0x0A] @ after] Done
          = (if list_all isWhiteSpace (drop k (js ''0:'' @ t))
             then readLoop N [] [before @ [0x0A] @ (js ''0:'' @ t) @ [0x0A] @ after] Done
             else readLoop N [] [before @ [0x0A] @ after] Done)"
    using cut_frame_in_stream [of t v k N before after] by blast
  show ?thesis
    using a b c d e split_newline_nonempty [of chunk] join_split_newline [of chunk]
      split_newline_lines [of chunk]
    by blast
qed

theorem chunks_split_independently_witness:
  \<open>JSON_parse (js ''{"content":"lo"}'') = Inr (JObject [(js ''content'', JString (js ''lo''))])
   \<and> 0x0A \<notin> set (js ''{"content":"lo"}'')
   \<and> (0::nat) < 7 \<and> 7 < length (js ''0:'' @ js ''{"content":"lo"}'')
   \<and> take 7 (js ''0:'' @ js ''{"content":"lo"}'') = js ''0:{"con''
   \<and> drop 7 (js ''0:'' @ js ''{"content":"lo"}'') = js ''tent":"lo"}''
   \<and> contentField asWritten (js ''0:{"con'') = []
   \<and> contentField asWritten (js ''tent":"lo"}'') = []
   \<and> readLoop asWritten []
        [js ''0:{"content":"Hel"}\<newline>0:{"con'', js ''tent":"lo"}\<newline>''] Done
       = Inr (js ''Hel'')
   \<and> JSON_parse (js ''{"content":"a"}'' @ [0x0D])
       = Inr (JObject [(js ''content'', JString (js ''a''))])
   \<and> list_all isWhiteSpace (drop 17 (js ''0:'' @ js ''{"content":"a"}'' @ [0x0D]))
   \<and> readLoop asWritten []
        [js ''0:{"content":"Hel"}\<newline>0:{"content":"a"}'', [0x0D, 0x0A]] Done
       = Inr (js ''Hela'')
   \<and> split_newline (js ''0:{"content":"Hel"}\<newline>0:{"con'')
       = [js ''0:{"content":"Hel"}'', js ''0:{"con'']
   \<and> join_newline [js ''0:{"content":"Hel"}'', js ''0:{"con'']
       = js ''0:{"content":"Hel"}\<newline>0:{"con''\<close>
proof -
  have p: \<open>JSON_parse (js ''{"content":"lo"}'')
             = Inr (JObject [(js ''content'', JString (js ''lo''))])\<close>
    by (simp add: json_eval)
  have pa: \<open>JSON_parse (js ''{"content":"a"}'' @ [0x0D])
             = Inr (JObject [(js ''content'', JString (js ''a''))])\<close>
    by (simp add: json_eval)
  have nl: \<open>0x0A \<notin> set (js ''{"content":"lo"}'')\<close> by (simp add: js_def)
  have nla: \<open>0x0A \<notin> set (js ''{"content":"a"}'' @ [0x0D])\<close> by (simp add: js_def)
  have k1: "(0::nat) < 7" by simp
  have k2: \<open>7 < length (js ''0:'' @ js ''{"content":"lo"}'')\<close> by (simp add: js_def)
  have k3: "(0::nat) < 17" by simp
  have k4: \<open>17 < length (js ''0:'' @ js ''{"content":"a"}'' @ [0x0D])\<close> by (simp add: js_def)
  have A: \<open>take 7 (js ''0:'' @ js ''{"content":"lo"}'') = js ''0:{"con''\<close>
    by (simp add: js_def)
  have B: \<open>drop 7 (js ''0:'' @ js ''{"content":"lo"}'') = js ''tent":"lo"}''\<close>
    by (simp add: js_def)
  have nw: \<open>\<not> list_all isWhiteSpace (js ''tent":"lo"}'')\<close>
    by (simp add: js_def isWhiteSpace_def)
  have w: \<open>list_all isWhiteSpace (drop 17 (js ''0:'' @ js ''{"content":"a"}'' @ [0x0D]))\<close>
    by (simp add: js_def isWhiteSpace_def)
  have c1: \<open>js ''0:{"content":"Hel"}'' @ [0x0A] @ js ''0:{"con''
              = js ''0:{"content":"Hel"}\<newline>0:{"con''\<close>
    by (simp add: js_def)
  have c2: \<open>js ''tent":"lo"}'' @ [0x0A] @ [] = js ''tent":"lo"}\<newline>''\<close>
    by (simp add: js_def)
  have c3: \<open>js ''0:{"content":"Hel"}'' @ [0x0A] @ take 17 (js ''0:'' @ js ''{"content":"a"}'' @ [0x0D])
              = js ''0:{"content":"Hel"}\<newline>0:{"content":"a"}''\<close>
    by (simp add: js_def)
  have c4: \<open>drop 17 (js ''0:'' @ js ''{"content":"a"}'' @ [0x0D]) @ [0x0A] @ [] = [0x0D, 0x0A]\<close>
    by (simp add: js_def)
  have e1: \<open>readLoop asWritten [] [js ''0:{"content":"Hel"}'' @ [0x0A] @ []] Done
              = Inr (js ''Hel'')\<close>
    by (simp add: readLoop_contentField lines_of_def json_eval contentField_def startsWith_def
        ToBoolean_def)
  have e2: \<open>readLoop asWritten []
              [js ''0:{"content":"Hel"}'' @ [0x0A] @ (js ''0:'' @ js ''{"content":"a"}'' @ [0x0D])
                 @ [0x0A] @ []] Done
              = Inr (js ''Hela'')\<close>
    by (simp add: readLoop_contentField lines_of_def json_eval contentField_def startsWith_def
        ToBoolean_def)
  note t1 = chunks_split_independently [where N = asWritten
      and chunk = \<open>js ''0:{"content":"Hel"}\<newline>0:{"con''\<close>
      and t = \<open>js ''{"content":"lo"}''\<close>
      and v = \<open>JObject [(js ''content'', JString (js ''lo''))]\<close> and k = 7
      and before = \<open>js ''0:{"content":"Hel"}''\<close> and after = \<open>[]\<close>]
  note t2 = chunks_split_independently [where N = asWritten
      and t = \<open>js ''{"content":"a"}'' @ [0x0D]\<close>
      and v = \<open>JObject [(js ''content'', JString (js ''a''))]\<close> and k = 17
      and before = \<open>js ''0:{"content":"Hel"}''\<close> and after = \<open>[]\<close>]
  have f0: \<open>contentField asWritten (drop 7 (js ''0:'' @ js ''{"content":"lo"}'')) = []
      \<and> contentField asWritten (take 7 (js ''0:'' @ js ''{"content":"lo"}''))
          = (if list_all isWhiteSpace (drop 7 (js ''0:'' @ js ''{"content":"lo"}''))
             then contentField asWritten (js ''0:'' @ js ''{"content":"lo"}'') else [])\<close>
    using t1 p k1 k2 by blast
  have f1: \<open>contentField asWritten (js ''tent":"lo"}'') = []\<close>
    using f0 unfolding B by blast
  have f2: \<open>contentField asWritten (js ''0:{"con'') = []\<close>
    using f0 unfolding A B by (simp only: nw if_False)
  have r1: \<open>readLoop asWritten []
        [js ''0:{"content":"Hel"}'' @ [0x0A] @ take 7 (js ''0:'' @ js ''{"content":"lo"}''),
         drop 7 (js ''0:'' @ js ''{"content":"lo"}'') @ [0x0A] @ []] Done
       = (if list_all isWhiteSpace (drop 7 (js ''0:'' @ js ''{"content":"lo"}''))
          then readLoop asWritten []
                 [js ''0:{"content":"Hel"}'' @ [0x0A] @ (js ''0:'' @ js ''{"content":"lo"}'')
                    @ [0x0A] @ []] Done
          else readLoop asWritten [] [js ''0:{"content":"Hel"}'' @ [0x0A] @ []] Done)\<close>
    using t1 p nl k1 k2 by blast
  have r1': \<open>readLoop asWritten []
        [js ''0:{"content":"Hel"}\<newline>0:{"con'', js ''tent":"lo"}\<newline>''] Done
       = Inr (js ''Hel'')\<close>
    using r1 unfolding A B c1 c2 by (simp only: nw if_False e1)
  have r2: \<open>readLoop asWritten []
        [js ''0:{"content":"Hel"}'' @ [0x0A] @ take 17 (js ''0:'' @ js ''{"content":"a"}'' @ [0x0D]),
         drop 17 (js ''0:'' @ js ''{"content":"a"}'' @ [0x0D]) @ [0x0A] @ []] Done
       = (if list_all isWhiteSpace (drop 17 (js ''0:'' @ js ''{"content":"a"}'' @ [0x0D]))
          then readLoop asWritten []
                 [js ''0:{"content":"Hel"}'' @ [0x0A] @ (js ''0:'' @ js ''{"content":"a"}'' @ [0x0D])
                    @ [0x0A] @ []] Done
          else readLoop asWritten [] [js ''0:{"content":"Hel"}'' @ [0x0A] @ []] Done)\<close>
    using t2 pa nla k3 k4 by blast
  have r2': \<open>readLoop asWritten []
        [js ''0:{"content":"Hel"}\<newline>0:{"content":"a"}'', [0x0D, 0x0A]] Done
       = Inr (js ''Hela'')\<close>
    using r2 unfolding c3 c4 by (simp only: w if_True e2)
  have sp: \<open>split_newline (js ''0:{"content":"Hel"}\<newline>0:{"con'')
       = [js ''0:{"content":"Hel"}'', js ''0:{"con'']\<close>
    by (simp add: js_def)
  have j: \<open>join_newline (split_newline (js ''0:{"content":"Hel"}\<newline>0:{"con''))
       = js ''0:{"content":"Hel"}\<newline>0:{"con''\<close>
    using t1 by blast
  have j': \<open>join_newline [js ''0:{"content":"Hel"}'', js ''0:{"con'']
       = js ''0:{"content":"Hel"}\<newline>0:{"con''\<close>
    using j unfolding sp .
  show ?thesis
    using p nl k1 k2 A B f2 f1 r1' pa w r2' sp j' by blast
qed

section \<open>The response of a turn\<close>

text \<open>
  What \<open>GawinVoiceInterface.handleVoiceInput\<close> does with the text of the turn: it is
  spoken when there is a synthesizer.
\<close>

lemma Gawin_handleVoiceInput_text:
  "Gawin_handleVoiceInput N text f c =
     (if synthRef c then invoke (Speak (Gawin_responseText N f)) (c\<lparr>state := speaking\<rparr>)
      else c\<lparr>state := idle\<rparr>)"
  by (simp add: Gawin_handleVoiceInput_def Gawin_responseText_def Let_def split: sum.splits)

lemma finalResponse_fails: "fails f \<Longrightarrow> \<exists>e. finalResponse N f = Inl e"
  by (cases f) (simp_all add: fails_def finalResponse_def)

text \<open>A response without a body gets the same fallback as a body without content.\<close>

lemma finalResponse_no_body:
  "finalResponse N (Response True None)
     = Inr (js ''I heard you, but I'm not sure how to respond to that.'')"
  by (simp add: finalResponse_def)

text \<open>
  C4: for every body in which no line is a content frame with content, so that nothing is
  accumulated, the final response of either component is the fixed sentence
  \<open>I heard you, but I'm not sure how to respond to that.\<close>
\<close>

theorem no_content_fallback:
  assumes "list_all (\<lambda>line. contentField N line = []) (lines_of chunks)"
  shows "Gawin_responseText N (Response True (Some (Body chunks Done)))
           = js ''I heard you, but I'm not sure how to respond to that.''
       \<and> response (AI_handleVoiceInput_reading muted N text
                     (Response True (Some (Body chunks Done))) a)
           = js ''I heard you, but I'm not sure how to respond to that.''"
proof -
  have "concat (map (contentField N) (lines_of chunks)) = []"
    using assms by (simp add: list_all_iff)
  then have "readLoop N [] chunks Done = Inr []"
    by (simp add: readLoop_contentField)
  then have "finalResponse N (Response True (Some (Body chunks Done)))
               = Inr (js ''I heard you, but I'm not sure how to respond to that.'')"
    by (simp add: finalResponse_def)
  then show ?thesis
    by (simp add: Gawin_responseText_def AI_handleVoiceInput_reading_def Let_def invoke_def)
qed

theorem no_content_fallback_witness:
  \<open>list_all (\<lambda>line. contentField asWritten line = [])
      (lines_of [js ''2:[{"done":true}]\<newline>'', js ''0:{"con\<newline>0:{"content":""}''])
   \<and> Gawin_responseText asWritten
        (Response True
           (Some (Body [js ''2:[{"done":true}]\<newline>'', js ''0:{"con\<newline>0:{"content":""}'']
                    Done)))
       = js ''I heard you, but I'm not sure how to respond to that.''
   \<and> response (AI_handleVoiceInput_reading False asWritten (js ''hello'')
        (Response True
           (Some (Body [js ''2:[{"done":true}]\<newline>'', js ''0:{"con\<newline>0:{"content":""}'']
                    Done)))
        (AI_mount True True))
       = js ''I heard you, but I'm not sure how to respond to that.''\<close>
proof -
  have h: \<open>list_all (\<lambda>line. contentField asWritten line = [])
      (lines_of [js ''2:[{"done":true}]\<newline>'', js ''0:{"con\<newline>0:{"content":""}''])\<close>
    by (simp add: lines_of_def frame_eval)
  show ?thesis
    using h no_content_fallback [OF h, of False "js ''hello''" "AI_mount True True"]
    by simp
qed

text \<open>
  C1: the completion call fails. The claim: the response text is
  \<open>I'm having trouble processing that right now.\<close> In \<open>AIVoiceInterface\<close> it is not.
\<close>

theorem AI_fallback_differs:
  "fails Rejected
   \<and> response (AI_handleVoiceInput asWritten (js ''hello'') Rejected (AI_mount True True))
       \<noteq> js ''I'm having trouble processing that right now.''"
  by (simp add: fails_def AI_handleVoiceInput_def AI_handleVoiceInput_reading_def
      finalResponse_def Let_def invoke_def js_def)

text \<open>
  C1, amended: for every transcript, when the completion call fails,
  \<open>GawinVoiceInterface\<close> produces \<open>I'm having trouble processing that right now.\<close>,
  speaks it and ends the turn in \<open>speaking\<close> if a synthesizer is available, and ends it
  in \<open>idle\<close> otherwise; \<open>AIVoiceInterface\<close> produces
  \<open>I'm having trouble processing that right now. Please try again.\<close> and ends the turn
  in \<open>speaking\<close> if a synthesizer is available and the \<open>isMuted\<close> it reads is false, in
  \<open>idle\<close> otherwise.
\<close>

theorem failing_call_fallback:
  assumes "fails f"
  shows "Gawin_responseText N f = js ''I'm having trouble processing that right now.''
       \<and> state (Gawin_handleVoiceInput N text f c) = (if synthRef c then speaking else idle)
       \<and> issued (Gawin_handleVoiceInput N text f) c
           = (if synthRef c then [Speak (js ''I'm having trouble processing that right now.'')]
              else [])
       \<and> response (AI_handleVoiceInput_reading muted N text f a)
           = js ''I'm having trouble processing that right now. Please try again.''
       \<and> state (AI_handleVoiceInput_reading muted N text f a)
           = (if \<not> muted \<and> synthRef a then speaking else idle)"
proof -
  obtain e where e: "finalResponse N f = Inl e"
    using finalResponse_fails [OF assms] by blast
  have g: "Gawin_responseText N f = js ''I'm having trouble processing that right now.''"
    by (simp add: Gawin_responseText_def e)
  have gs: "state (Gawin_handleVoiceInput N text f c) = (if synthRef c then speaking else idle)"
    by (simp add: Gawin_handleVoiceInput_text)
  have gi: "issued (Gawin_handleVoiceInput N text f) c
           = (if synthRef c then [Speak (js ''I'm having trouble processing that right now.'')]
              else [])"
    by (simp add: Gawin_handleVoiceInput_text issued_def g)
  have ar: "response (AI_handleVoiceInput_reading muted N text f a)
           = js ''I'm having trouble processing that right now. Please try again.''"
    by (simp add: AI_handleVoiceInput_reading_def e Let_def invoke_def)
  have as: "state (AI_handleVoiceInput_reading muted N text f a)
           = (if \<not> muted \<and> synthRef a then speaking else idle)"
    by (simp add: AI_handleVoiceInput_reading_def e Let_def)
  show ?thesis using g gs gi ar as by simp
qed

theorem failing_call_fallback_witness:
  "fails Rejected
   \<and> Gawin_responseText asWritten Rejected = js ''I'm having trouble processing that right now.''
   \<and> state (Gawin_handleVoiceInput asWritten (js ''hello'') Rejected (Gawin_mount True True))
       = speaking
   \<and> state (Gawin_handleVoiceInput asWritten (js ''hello'') Rejected (Gawin_mount True False))
       = idle
   \<and> state (AI_handleVoiceInput_reading False asWritten (js ''hello'') Rejected
              (AI_mount True True))
       = speaking"
  using failing_call_fallback [of Rejected asWritten "js ''hello''" "Gawin_mount True True"
      False "AI_mount True True"]
    failing_call_fallback [of Rejected asWritten "js ''hello''" "Gawin_mount True False"
      False "AI_mount True True"]
  by (simp add: fails_def Gawin_mount_def AI_mount_def)

end
